theory Spec2Isabelle
  imports Main
begin

section \<open>JavaScript values\<close>

text \<open>
  The values a store property can hold. Strings are byte lists (the UTF-8 bytes of the
  JavaScript string). Numbers are restricted to the integers, whose \<open>String(n)\<close> is the
  decimal numeral. An object carries the names of the constructors on its prototype
  chain (what \<open>instanceof\<close> inspects) and an opaque payload.
\<close>

datatype jsval =
    Undefined
  | Null
  | Str string
  | Num int
  | Bool bool
  | Obj "string list" string

datatype js_error = Error string

text \<open>\<open>typeof v\<close>.\<close>

fun typeof :: "jsval \<Rightarrow> string" where
  "typeof Undefined = ''undefined''"
| "typeof Null = ''object''"
| "typeof (Str s) = ''string''"
| "typeof (Num n) = ''number''"
| "typeof (Bool b) = ''boolean''"
| "typeof (Obj cs p) = ''object''"

text \<open>\<open>v instanceof C\<close>: the constructor \<open>C\<close> is on the prototype chain of \<open>v\<close>.\<close>

fun instanceof :: "jsval \<Rightarrow> string \<Rightarrow> bool" where
  "instanceof (Obj cs p) c = (c \<in> set cs)"
| "instanceof v c = False"

definition digit_char :: "nat \<Rightarrow> char" where
  "digit_char d = char_of (of_char (CHR ''0'') + d)"

fun nat_to_string :: "nat \<Rightarrow> string" where
  "nat_to_string n =
     (if n < 10 then [digit_char n] else nat_to_string (n div 10) @ [digit_char (n mod 10)])"

declare nat_to_string.simps [simp del]

text \<open>\<open>String(v)\<close>. An object without its own \<open>toString\<close> prints as \<open>[object Object]\<close>.\<close>

fun String :: "jsval \<Rightarrow> string" where
  "String Undefined = ''undefined''"
| "String Null = ''null''"
| "String (Str s) = s"
| "String (Num n) = (if n < 0 then CHR ''-'' # nat_to_string (nat (- n)) else nat_to_string (nat n))"
| "String (Bool b) = (if b then ''true'' else ''false'')"
| "String (Obj cs p) = ''[object Object]''"

section \<open>URLSearchParams\<close>

text \<open>
  The browser's \<open>URLSearchParams\<close>, as an ordered list of name/value pairs, with the
  \<open>application/x-www-form-urlencoded\<close> parser and serializer of the URL standard on
  byte strings.
\<close>

type_synonym url_params = "(string \<times> string) list"

definition hex_digit :: "nat \<Rightarrow> char" where
  "hex_digit d = (if d < 10 then char_of (48 + d) else char_of (55 + d))"

definition is_hex :: "char \<Rightarrow> bool" where
  "is_hex c = (let n = (of_char c :: nat) in
     (48 \<le> n \<and> n \<le> 57) \<or> (65 \<le> n \<and> n \<le> 70) \<or> (97 \<le> n \<and> n \<le> 102))"

definition hex_val :: "char \<Rightarrow> nat" where
  "hex_val c = (let n = (of_char c :: nat) in
     if n \<le> 57 then n - 48 else if n \<le> 70 then n - 55 else n - 87)"

text \<open>Bytes the serializer leaves as they are: ASCII alphanumerics and \<open>* - . _\<close>.\<close>

definition form_safe :: "char \<Rightarrow> bool" where
  "form_safe c = (let n = (of_char c :: nat) in
     (48 \<le> n \<and> n \<le> 57) \<or> (65 \<le> n \<and> n \<le> 90) \<or> (97 \<le> n \<and> n \<le> 122) \<or>
     n = 42 \<or> n = 45 \<or> n = 46 \<or> n = 95)"

definition encode_byte :: "char \<Rightarrow> string" where
  "encode_byte c =
     (if form_safe c then [c]
      else if c = CHR '' '' then ''+''
      else [CHR ''%'', hex_digit (of_char c div 16), hex_digit (of_char c mod 16)])"

definition form_encode :: "string \<Rightarrow> string" where
  "form_encode s = concat (map encode_byte s)"

fun form_decode :: "string \<Rightarrow> string" where
  "form_decode [] = []"
| "form_decode (c # cs) =
     (if c = CHR ''+'' then CHR '' '' # form_decode cs
      else if c = CHR ''%'' then
        (case cs of
           a # b # rest \<Rightarrow>
             (if is_hex a \<and> is_hex b then char_of (16 * hex_val a + hex_val b) # form_decode rest
              else c # form_decode cs)
         | _ \<Rightarrow> c # form_decode cs)
      else c # form_decode cs)"

text \<open>Strict split of a string on a separator character.\<close>

fun split_on :: "char \<Rightarrow> string \<Rightarrow> string list" where
  "split_on sep [] = [[]]"
| "split_on sep (c # cs) =
     (if c = sep then [] # split_on sep cs
      else (case split_on sep cs of
              [] \<Rightarrow> [[c]]
            | p # ps \<Rightarrow> (c # p) # ps))"

definition parse_pair :: "string \<Rightarrow> string \<times> string" where
  "parse_pair s =
     (form_decode (takeWhile (\<lambda>c. c \<noteq> CHR ''='') s),
      form_decode (drop 1 (dropWhile (\<lambda>c. c \<noteq> CHR ''='') s)))"

text \<open>\<open>new URLSearchParams(init)\<close> for a string: one leading \<open>?\<close> is dropped.\<close>

definition URLSearchParams :: "string \<Rightarrow> url_params" where
  "URLSearchParams init =
     (let s = (case init of c # cs \<Rightarrow> (if c = CHR ''?'' then cs else init) | [] \<Rightarrow> [])
      in map parse_pair (filter (\<lambda>p. p \<noteq> []) (split_on (CHR ''&'') s)))"

definition usp_has :: "url_params \<Rightarrow> string \<Rightarrow> bool" where
  "usp_has ps k = (k \<in> set (map fst ps))"

text \<open>\<open>params.get(k)\<close>: the first value under the name, \<open>null\<close> when there is none.\<close>

definition usp_get :: "url_params \<Rightarrow> string \<Rightarrow> string option" where
  "usp_get ps k = map_of ps k"

text \<open>\<open>params.set(k, v)\<close>: the first pair named \<open>k\<close> takes the value and the others
  are removed; without such a pair, one is appended.\<close>

fun usp_set :: "url_params \<Rightarrow> string \<Rightarrow> string \<Rightarrow> url_params" where
  "usp_set [] k v = [(k, v)]"
| "usp_set (p # ps) k v =
     (if fst p = k then (k, v) # filter (\<lambda>q. fst q \<noteq> k) ps else p # usp_set ps k v)"

definition usp_delete :: "url_params \<Rightarrow> string \<Rightarrow> url_params" where
  "usp_delete ps k = filter (\<lambda>q. fst q \<noteq> k) ps"

fun join_amp :: "string list \<Rightarrow> string" where
  "join_amp [] = []"
| "join_amp [s] = s"
| "join_amp (s # t # ss) = s @ ''&'' @ join_amp (t # ss)"

definition render_pair :: "string \<times> string \<Rightarrow> string" where
  "render_pair p = form_encode (fst p) @ ''='' @ form_encode (snd p)"

text \<open>\<open>params.toString()\<close>.\<close>

definition usp_toString :: "url_params \<Rightarrow> string" where
  "usp_toString ps = join_amp (map render_pair ps)"

section \<open>The engine and its environment\<close>

type_synonym store_id = nat

text \<open>The pair of functions a field is converted with. A \<open>deserialize\<close> supplied by the
  caller may throw.\<close>

record codec =
  serialize :: "jsval \<Rightarrow> string"
  deserialize :: "string \<Rightarrow> js_error + jsval"

text \<open>\<open>interface Serializer<T>\<close>; the constructor is known by its name.\<close>

record serializer = codec +
  classConstructor :: string

text \<open>\<open>interface SyncedField<QP>\<close>; the store is a reference.\<close>

record synced_field = codec +
  store :: store_id
  property :: string
  queryParam :: string
  defaultValue :: jsval

text \<open>The \<open>config\<close> argument of \<open>register\<close>. A property that is absent reads as
  \<open>undefined\<close>.\<close>

record config =
  config_defaultValue :: jsval
  config_serialize :: "(jsval \<Rightarrow> string) option"
  config_deserialize :: "(string \<Rightarrow> js_error + jsval) option"

text \<open>\<open>window.location\<close>: \<open>origin\<close> is what \<open>href\<close> has before the path (scheme and
  authority).\<close>

record location =
  origin :: string
  pathname :: string
  search :: string
  hash :: string

definition href :: "location \<Rightarrow> string" where
  "href l = origin l @ pathname l @ search l @ hash l"

text \<open>
  The fields of the class \<open>MobXURLSync\<close> and the string its reaction got from
  \<open>buildQueryString()\<close> when it last ran, followed by the environment it runs in: the
  stores (a property never written reads as \<open>undefined\<close>), the store properties that
  are MobX observables, the interceptors installed on store properties, the location, the
  URLs handed to \<open>history.replaceState\<close> (oldest first), the pending timers of the event
  loop with the time each is due, the next timer handle and the clock read by
  \<open>Date.now()\<close>. \<open>fields_map\<close> is the \<open>Map\<close> called \<open>fields\<close>, in insertion order.
\<close>

record state =
  serializers :: "(string \<times> serializer) list"
  debounceDelay :: int
  fields_map :: "(string \<times> synced_field) list"
  updateTimer :: "nat option"
  lastUpdateTime :: int
  reactionValue :: string
  stores :: "store_id \<Rightarrow> string \<Rightarrow> jsval"
  observable :: "store_id \<Rightarrow> string \<Rightarrow> bool"
  interceptors :: "(store_id \<times> string) list"
  location :: location
  replaced :: "string list"
  timers :: "(nat \<times> int) list"
  nextTimer :: nat
  now :: int

definition DEFAULT_DEBOUNCE_DELAY :: int where
  "DEFAULT_DEBOUNCE_DELAY = 500"

subsection \<open>Collaborators\<close>

text \<open>\<open>Map.has\<close>, \<open>Map.set\<close> on the insertion-ordered list.\<close>

definition map_has :: "(string \<times> 'v) list \<Rightarrow> string \<Rightarrow> bool" where
  "map_has m k = (k \<in> set (map fst m))"

fun map_set :: "(string \<times> 'v) list \<Rightarrow> string \<Rightarrow> 'v \<Rightarrow> (string \<times> 'v) list" where
  "map_set [] k v = [(k, v)]"
| "map_set (p # ps) k v = (if fst p = k then (k, v) # ps else p # map_set ps k v)"

text \<open>\<open>store[property]\<close>, read and written.\<close>

definition read_prop :: "state \<Rightarrow> store_id \<Rightarrow> string \<Rightarrow> jsval" where
  "read_prop s sid p = stores s sid p"

definition write_prop :: "store_id \<Rightarrow> string \<Rightarrow> jsval \<Rightarrow> state \<Rightarrow> state" where
  "write_prop sid p v s = s\<lparr>stores := (stores s)(sid := (stores s sid)(p := v))\<rparr>"

text \<open>
  \<open>intercept(store, property, change => change)\<close>: MobX installs the handler on a
  property that is observable and throws for any other. The handler returns every change
  as it is, so a write goes through as written. The wording of the error is MobX's and
  depends on its version and build; the one kept here is that for an observable object
  without the property, less the name of the object. Which error it is matters here only
  in that it is neither of the two \<open>register\<close> throws itself.
\<close>

definition mobx_error :: "string \<Rightarrow> js_error" where
  "mobx_error p =
     Error (''[MobX] no observable property '' @ [CHR 0x27] @ p @ [CHR 0x27] @ '' found'')"

definition intercept :: "store_id \<Rightarrow> string \<Rightarrow> state \<Rightarrow> (js_error + unit) \<times> state" where
  "intercept sid p s =
     (if observable s sid p then (Inr (), s\<lparr>interceptors := interceptors s @ [(sid, p)]\<rparr>)
      else (Inl (mobx_error p), s))"

text \<open>\<open>window.setTimeout(callback, wait)\<close> returns the handle of the timer it arms; a
  negative wait counts as zero. \<open>clearTimeout(h)\<close> disarms it.\<close>

definition setTimeout :: "int \<Rightarrow> state \<Rightarrow> nat \<times> state" where
  "setTimeout wait s =
     (nextTimer s,
      s\<lparr>timers := timers s @ [(nextTimer s, now s + max 0 wait)], nextTimer := nextTimer s + 1\<rparr>)"

definition clearTimeout :: "nat \<Rightarrow> state \<Rightarrow> state" where
  "clearTimeout h s = s\<lparr>timers := filter (\<lambda>t. fst t \<noteq> h) (timers s)\<rparr>"

text \<open>\<open>window.history.replaceState(null, '', url)\<close> for a path-absolute \<open>url\<close> with an
  optional query: the call is logged, the path and the query of the location become those
  of \<open>url\<close> and the fragment is dropped. An empty query leaves \<open>search\<close> empty.\<close>

definition replaceState :: "string \<Rightarrow> state \<Rightarrow> state" where
  "replaceState url s =
     (let q = dropWhile (\<lambda>c. c \<noteq> CHR ''?'') url
      in s\<lparr>replaced := replaced s @ [url],
            location := (location s)\<lparr>pathname := takeWhile (\<lambda>c. c \<noteq> CHR ''?'') url,
                                     search := (if q = ''?'' then [] else q),
                                     hash := []\<rparr>\<rparr>)"

subsection \<open>\<open>getAutoSerializer\<close>\<close>

text \<open>The loop over the table of custom serializers, in the order \<open>for ... in\<close>
  enumerates its keys.\<close>

fun find_serializer :: "(string \<times> serializer) list \<Rightarrow> jsval \<Rightarrow> serializer option" where
  "find_serializer [] val = None"
| "find_serializer ((key, s) # rest) val =
     (if instanceof val (classConstructor s) then Some s else find_serializer rest val)"

definition getAutoSerializer :: "(string \<times> serializer) list \<Rightarrow> jsval \<Rightarrow> codec option" where
  "getAutoSerializer sers val =
     (if typeof val \<in> set [''string'', ''number'', ''boolean'']
      then Some \<lparr>serialize = String, deserialize = (\<lambda>s. Inr (Str s))\<rparr>
      else (case find_serializer sers val of
              Some s \<Rightarrow> Some \<lparr>serialize = serialize s, deserialize = deserialize s\<rparr>
            | None \<Rightarrow> None))"

subsection \<open>\<open>buildQueryString\<close>\<close>

text \<open>The \<open>params\<close> object that \<open>buildQueryString\<close> fills, field by field.\<close>

definition add_field :: "state \<Rightarrow> url_params \<Rightarrow> string \<times> synced_field \<Rightarrow> url_params" where
  "add_field s params kf =
     (let f = snd kf;
          raw = read_prop s (store f) (property f);
          str = serialize f raw
      in if str \<noteq> serialize f (defaultValue f) then usp_set params (queryParam f) str
         else params)"

definition build_params :: "state \<Rightarrow> url_params" where
  "build_params s = foldl (add_field s) [] (fields_map s)"

definition buildQueryString :: "state \<Rightarrow> string" where
  "buildQueryString s = usp_toString (build_params s)"

subsection \<open>\<open>applyUrlUpdate\<close> and \<open>scheduleUrlUpdate\<close>\<close>

definition applyUrlUpdate :: "state \<Rightarrow> state" where
  "applyUrlUpdate s =
     (let s1 = s\<lparr>lastUpdateTime := now s\<rparr>;
          qs = buildQueryString s1;
          base = pathname (location s1);
          newUrl = (if qs \<noteq> [] then base @ ''?'' @ qs else base)
      in if newUrl \<noteq> takeWhile (\<lambda>c. c \<noteq> CHR ''?'') (href (location s1)) @ search (location s1)
         then replaceState newUrl s1
         else s1)"

text \<open>The callback \<open>scheduleUrlUpdate\<close> hands to \<open>setTimeout\<close>.\<close>

definition timer_callback :: "state \<Rightarrow> state" where
  "timer_callback s = (applyUrlUpdate s)\<lparr>updateTimer := None\<rparr>"

definition scheduleUrlUpdate :: "state \<Rightarrow> state" where
  "scheduleUrlUpdate s =
     (let elapsed = now s - lastUpdateTime s;
          s1 = (case updateTimer s of
                  Some h \<Rightarrow> (clearTimeout h s)\<lparr>updateTimer := None\<rparr>
                | None \<Rightarrow> s)
      in if lastUpdateTime s1 = 0 \<or> elapsed \<ge> debounceDelay s1 then applyUrlUpdate s1
         else (let wait = debounceDelay s1 - elapsed;
                   (h, s2) = setTimeout wait s1
               in s2\<lparr>updateTimer := Some h\<rparr>))"

text \<open>
  The reaction set up by the constructor, run again: \<open>buildQueryString()\<close> is evaluated,
  and when the string differs from the one the reaction got last, it is kept and
  \<open>scheduleUrlUpdate()\<close> runs. MobX runs the reaction again at the end of a batch that
  changed something \<open>buildQueryString()\<close> read as an observable: the map of fields, or an
  observable store property of a field.
\<close>

definition reaction :: "state \<Rightarrow> state" where
  "reaction s =
     (let qs = buildQueryString s
      in if qs \<noteq> reactionValue s then scheduleUrlUpdate (s\<lparr>reactionValue := qs\<rparr>) else s)"

subsection \<open>The constructor and \<open>register\<close>\<close>

text \<open>\<open>new MobXURLSync(serializers, options)\<close> in an environment; \<open>opt\<close> is
  \<open>options.debounceDelay\<close>. The reaction runs once, on no field.\<close>

definition MobXURLSync ::
  "(string \<times> serializer) list \<Rightarrow> int option \<Rightarrow> (store_id \<Rightarrow> string \<Rightarrow> jsval) \<Rightarrow>
   (store_id \<Rightarrow> string \<Rightarrow> bool) \<Rightarrow> location \<Rightarrow> int \<Rightarrow> state"
where
  "MobXURLSync sers opt sts obs loc t =
     \<lparr>serializers = sers,
      debounceDelay = (case opt of Some d \<Rightarrow> d | None \<Rightarrow> DEFAULT_DEBOUNCE_DELAY),
      fields_map = [], updateTimer = None, lastUpdateTime = 0, reactionValue = [],
      stores = sts, observable = obs, interceptors = [], location = loc, replaced = [],
      timers = [], nextTimer = 1, now = t\<rparr>"

text \<open>\<open>a ?? b\<close>.\<close>

definition nullish :: "jsval \<Rightarrow> jsval \<Rightarrow> jsval" where
  "nullish a b = (if a = Undefined \<or> a = Null then b else a)"

definition duplicate_error :: "string \<Rightarrow> js_error" where
  "duplicate_error qp =
     Error (''Query param '' @ [CHR 0x22] @ qp @ [CHR 0x22] @ '' already registered.'')"

definition missing_serializer_error :: "string \<Rightarrow> js_error" where
  "missing_serializer_error prop =
     Error (''Property '' @ [CHR 0x22] @ prop @ [CHR 0x22] @
            '' requires serialize/deserialize functions.'')"

text \<open>Lines 83-91 of \<open>register\<close>: the two halves after the automatic lookup, each still
  possibly missing.\<close>

definition determine_serializer ::
  "(string \<times> serializer) list \<Rightarrow> config \<Rightarrow> jsval \<Rightarrow>
   (jsval \<Rightarrow> string) option \<times> (string \<Rightarrow> js_error + jsval) option"
where
  "determine_serializer sers cfg defaultVal =
     (if Option.is_none (config_serialize cfg) \<or> Option.is_none (config_deserialize cfg) then
        (case getAutoSerializer sers defaultVal of
           Some auto \<Rightarrow>
             (Some (case config_serialize cfg of Some f \<Rightarrow> f | None \<Rightarrow> serialize auto),
              Some (case config_deserialize cfg of Some g \<Rightarrow> g | None \<Rightarrow> deserialize auto))
         | None \<Rightarrow> (config_serialize cfg, config_deserialize cfg))
      else (config_serialize cfg, config_deserialize cfg))"

text \<open>Lines 100-108: the initial value from the URL; an error thrown by \<open>deserialize\<close>
  is caught and ignored.\<close>

definition hydrate ::
  "store_id \<Rightarrow> string \<Rightarrow> string \<Rightarrow> (string \<Rightarrow> js_error + jsval) \<Rightarrow> state \<Rightarrow> state"
where
  "hydrate sid prop qp deser s =
     (let params = URLSearchParams (search (location s))
      in if usp_has params qp then
           (case usp_get params qp of
              Some raw \<Rightarrow>
                (case deser raw of
                   Inr v \<Rightarrow> write_prop sid prop v s
                 | Inl e \<Rightarrow> s)
            | None \<Rightarrow> s)
         else s)"

text \<open>
  \<open>register\<close> returns the error it throws, or nothing, and the state it leaves behind.
  It is a MobX action: its writes are one batch. The batch ends when the action returns
  or throws, and the reaction runs then, the map of fields having changed. The two
  errors \<open>register\<close> throws itself come before any write; what \<open>intercept\<close> throws, in
  the last statement, comes after all of them.
\<close>

definition register ::
  "store_id \<Rightarrow> string \<Rightarrow> string \<Rightarrow> config \<Rightarrow> state \<Rightarrow> (js_error + unit) \<times> state"
where
  "register sid prop qp cfg s =
     (if map_has (fields_map s) qp then (Inl (duplicate_error qp), s)
      else
        (let defaultVal = nullish (config_defaultValue cfg) (read_prop s sid prop)
         in case determine_serializer (serializers s) cfg defaultVal of
              (Some ser, Some deser) \<Rightarrow>
                (let s1 = hydrate sid prop qp deser s;
                     s2 = s1\<lparr>fields_map := map_set (fields_map s1) qp
                             \<lparr>serialize = ser, deserialize = deser, store = sid,
                              property = prop, queryParam = qp, defaultValue = defaultVal\<rparr>\<rparr>;
                     (r, s3) = intercept sid prop s2
                 in (r, reaction s3))
            | _ \<Rightarrow> (Inl (missing_serializer_error prop), s)))"

subsection \<open>The event loop\<close>

text \<open>
  A timer that is due fires: the event loop removes it and runs its callback, at the
  time it is due (or now, when that is later).
\<close>

definition fire_timer :: "nat \<times> int \<Rightarrow> state \<Rightarrow> state" where
  "fire_timer tm s =
     (if tm \<in> set (timers s)
      then timer_callback ((clearTimeout (fst tm) s)\<lparr>now := max (now s) (snd tm)\<rparr>)
      else s)"

text \<open>Time passes until \<open>t\<close>: the timers due by then fire in the order they are due, and
  the clock reads \<open>t\<close>. The clock never runs backwards.\<close>

definition elapse :: "int \<Rightarrow> state \<Rightarrow> state" where
  "elapse t s =
     (let s' = foldl (\<lambda>s tm. fire_timer tm s) s
                 (sort_key snd (filter (\<lambda>tm. snd tm \<le> t) (timers s)))
      in s'\<lparr>now := max (now s') t\<rparr>)"

text \<open>A store property that \<open>buildQueryString()\<close> reads: the property of a field.\<close>

definition tracked :: "state \<Rightarrow> store_id \<Rightarrow> string \<Rightarrow> bool" where
  "tracked s sid p = ((sid, p) \<in> set (map (\<lambda>kf. (store (snd kf), property (snd kf))) (fields_map s)))"

text \<open>The application assigns \<open>store[property] = v\<close>, a batch of its own: the
  interceptors pass the change and the value is stored. The reaction runs when MobX
  reports the change to it: when the property is observable, a field reads it and the
  value is a new one. An assignment to any other property goes unnoticed.\<close>

definition notifies :: "store_id \<Rightarrow> string \<Rightarrow> jsval \<Rightarrow> state \<Rightarrow> bool" where
  "notifies sid p v s = (observable s sid p \<and> tracked s sid p \<and> read_prop s sid p \<noteq> v)"

definition set_property :: "store_id \<Rightarrow> string \<Rightarrow> jsval \<Rightarrow> state \<Rightarrow> state" where
  "set_property sid p v s =
     (if notifies sid p v s then reaction (write_prop sid p v s) else write_prop sid p v s)"

datatype event =
    Register store_id string string config
  | Assign store_id string jsval
  | Elapse int

fun step :: "state \<Rightarrow> event \<Rightarrow> state" where
  "step s (Register sid prop qp cfg) = snd (register sid prop qp cfg s)"
| "step s (Assign sid p v) = set_property sid p v s"
| "step s (Elapse t) = elapse t s"

definition run :: "event list \<Rightarrow> state \<Rightarrow> state" where
  "run evs s = foldl step s evs"

text \<open>A burst of assignments, each at its own time.\<close>

record mutation =
  at_time :: int
  target :: store_id
  prop_name :: string
  new_value :: jsval

definition apply_mutation :: "state \<Rightarrow> mutation \<Rightarrow> state" where
  "apply_mutation s m = set_property (target m) (prop_name m) (new_value m) (elapse (at_time m) s)"

definition run_burst :: "mutation list \<Rightarrow> state \<Rightarrow> state" where
  "run_burst ms s = foldl apply_mutation s ms"

text \<open>An assignment makes the reaction signal: MobX reports it, and the query string
  is not the one the reaction holds. A burst is dirty when one of its assignments does.\<close>

definition signals :: "store_id \<Rightarrow> string \<Rightarrow> jsval \<Rightarrow> state \<Rightarrow> bool" where
  "signals sid p v s =
     (notifies sid p v s \<and> buildQueryString (write_prop sid p v s) \<noteq> reactionValue s)"

fun dirty :: "mutation list \<Rightarrow> state \<Rightarrow> bool" where
  "dirty [] s = False"
| "dirty (m # ms) s =
     (signals (target m) (prop_name m) (new_value m) (elapse (at_time m) s)
      \<or> dirty ms (apply_mutation s m))"

text \<open>The URL a flush asks for, and the path and query the location shows.\<close>

definition desired_url :: "state \<Rightarrow> string" where
  "desired_url s =
     (if buildQueryString s \<noteq> [] then pathname (location s) @ ''?'' @ buildQueryString s
      else pathname (location s))"

definition current_url :: "state \<Rightarrow> string" where
  "current_url s = pathname (location s) @ search (location s)"

section \<open>Invariants\<close>

text \<open>The string the reaction holds is the one \<open>buildQueryString()\<close> returns now: no
  assignment has gone unnoticed.\<close>

definition in_sync :: "state \<Rightarrow> bool" where
  "in_sync s = (reactionValue s = buildQueryString s)"

text \<open>The engine has a timer pending exactly when \<open>updateTimer\<close> holds its handle, and
  the timer is due one delay after the last flush.\<close>

definition timer_ok :: "state \<Rightarrow> bool" where
  "timer_ok s =
     (timers s = (case updateTimer s of
                    None \<Rightarrow> []
                  | Some h \<Rightarrow> [(h, lastUpdateTime s + debounceDelay s)]))"

text \<open>The keys of the field map are distinct, and each entry is filed under its own
  query parameter.\<close>

definition fields_ok :: "state \<Rightarrow> bool" where
  "fields_ok s =
     (distinct (map fst (fields_map s)) \<and>
      list_all (\<lambda>kf. queryParam (snd kf) = fst kf) (fields_map s))"

text \<open>A location as a browser presents it: \<open>href\<close> starts with a scheme, and neither
  that part nor the path has a question mark.\<close>

definition location_ok :: "location \<Rightarrow> bool" where
  "location_ok l =
     (origin l \<noteq> [] \<and> CHR ''?'' \<notin> set (origin l) \<and> CHR ''?'' \<notin> set (pathname l))"

text \<open>A state inside the window that follows a flush.\<close>

definition in_window :: "state \<Rightarrow> state \<Rightarrow> bool" where
  "in_window s0 s =
     (timer_ok s \<and> lastUpdateTime s = lastUpdateTime s0 \<and> debounceDelay s = debounceDelay s0 \<and>
      now s < lastUpdateTime s0 + debounceDelay s0 \<and> replaced s = replaced s0 \<and>
      location s = location s0)"

text \<open>The pair a field contributes to the desired parameters, and whether it
  contributes: whether its value serializes differently from its default.\<close>

definition field_pair :: "state \<Rightarrow> string \<times> synced_field \<Rightarrow> string \<times> string" where
  "field_pair s kf =
     (queryParam (snd kf), serialize (snd kf) (read_prop s (store (snd kf)) (property (snd kf))))"

definition field_differs :: "state \<Rightarrow> string \<times> synced_field \<Rightarrow> bool" where
  "field_differs s kf =
     (serialize (snd kf) (read_prop s (store (snd kf)) (property (snd kf)))
        \<noteq> serialize (snd kf) (defaultValue (snd kf)))"

section \<open>The claim about the default value, as it is worded\<close>

text \<open>\<open>config.defaultValue\<close> if given, else the current value of the store property.\<close>

definition claimed_defaultValue :: "config \<Rightarrow> jsval \<Rightarrow> jsval" where
  "claimed_defaultValue cfg current =
     (if config_defaultValue cfg \<noteq> Undefined then config_defaultValue cfg else current)"

section \<open>The variant with one throttle per field\<close>

text \<open>
  The second source file holds an earlier form of the class, whose method is
  \<open>registerField\<close>. Each field entry carries its own timer handle and time of last
  update; the interceptor of a field edits the parameters of the current URL and writes
  them, at once or from a timer that keeps the parameters computed when it was armed.
\<close>

record field_entry = synced_field +
  fe_updateTimer :: "nat option"
  fe_lastUpdateTime :: "int option"

record vstate =
  defaultSerializers :: "(string \<times> serializer) list"
  throttleDelay :: int
  v_fields :: "(string \<times> field_entry) list"
  v_stores :: "store_id \<Rightarrow> string \<Rightarrow> jsval"
  v_observable :: "store_id \<Rightarrow> string \<Rightarrow> bool"
  v_interceptors :: "(store_id \<times> string \<times> string) list"
  v_location :: location
  v_replaced :: "string list"
  v_timers :: "(nat \<times> int \<times> string \<times> url_params) list"
  v_nextTimer :: nat
  v_now :: int

definition DEFAULT_THROTTLE_DELAY :: int where
  "DEFAULT_THROTTLE_DELAY = 500"

text \<open>The constructor takes \<open>options.throttleDelay\<close> when it is truthy.\<close>

definition MobXURLSync_variant ::
  "(string \<times> serializer) list \<Rightarrow> int option \<Rightarrow> (store_id \<Rightarrow> string \<Rightarrow> jsval) \<Rightarrow>
   (store_id \<Rightarrow> string \<Rightarrow> bool) \<Rightarrow> location \<Rightarrow> int \<Rightarrow> vstate"
where
  "MobXURLSync_variant sers opt sts obs loc t =
     \<lparr>defaultSerializers = sers,
      throttleDelay = (case opt of Some d \<Rightarrow> (if d \<noteq> 0 then d else DEFAULT_THROTTLE_DELAY)
                       | None \<Rightarrow> DEFAULT_THROTTLE_DELAY),
      v_fields = [], v_stores = sts, v_observable = obs, v_interceptors = [], v_location = loc, v_replaced = [],
      v_timers = [], v_nextTimer = 1, v_now = t\<rparr>"

definition getDefaultSerializer :: "(string \<times> serializer) list \<Rightarrow> jsval \<Rightarrow> codec option" where
  "getDefaultSerializer sers val =
     (if typeof val = ''string'' \<or> typeof val = ''number'' \<or> typeof val = ''boolean''
      then Some \<lparr>serialize = String, deserialize = (\<lambda>s. Inr (Str s))\<rparr>
      else (case find_serializer sers val of
              Some s \<Rightarrow> Some \<lparr>serialize = serialize s, deserialize = deserialize s\<rparr>
            | None \<Rightarrow> None))"

definition v_replaceState :: "string \<Rightarrow> vstate \<Rightarrow> vstate" where
  "v_replaceState url s =
     (let q = dropWhile (\<lambda>c. c \<noteq> CHR ''?'') url
      in s\<lparr>v_replaced := v_replaced s @ [url],
            v_location := (v_location s)\<lparr>pathname := takeWhile (\<lambda>c. c \<noteq> CHR ''?'') url,
                                         search := (if q = ''?'' then [] else q),
                                         hash := []\<rparr>\<rparr>)"

text \<open>An update of the entry filed under a key; the entries are objects, which the map
  and the interceptors share.\<close>

definition update_entry ::
  "string \<Rightarrow> (field_entry \<Rightarrow> field_entry) \<Rightarrow> vstate \<Rightarrow> vstate" where
  "update_entry k g s =
     s\<lparr>v_fields := map (\<lambda>kf. if fst kf = k then (fst kf, g (snd kf)) else kf) (v_fields s)\<rparr>"

text \<open>The closure \<open>updateUrl\<close> of a field, with the parameters it has captured.\<close>

definition updateUrl :: "string \<Rightarrow> url_params \<Rightarrow> vstate \<Rightarrow> vstate" where
  "updateUrl k newParams s =
     (let s1 = update_entry k (\<lambda>f. f\<lparr>fe_updateTimer := None, fe_lastUpdateTime := Some (v_now s)\<rparr>) s
      in v_replaceState
           (pathname (v_location s1) @
              (if usp_toString newParams \<noteq> [] then ''?'' @ usp_toString newParams else []))
           s1)"

text \<open>The handler \<open>startInterceptorForField\<close> installs, run on a change to
  \<open>newValue\<close>; it returns the change as it is.\<close>

definition interceptor :: "string \<Rightarrow> jsval \<Rightarrow> vstate \<Rightarrow> vstate" where
  "interceptor k newValue s =
     (case map_of (v_fields s) k of
        None \<Rightarrow> s
      | Some field \<Rightarrow>
          (let currentParams = URLSearchParams (search (v_location s));
               serializedValue = serialize field newValue;
               newParams = (if serializedValue = serialize field (defaultValue field)
                            then usp_delete currentParams (queryParam field)
                            else usp_set currentParams (queryParam field) serializedValue)
           in if usp_toString newParams = usp_toString currentParams then s
              else if (case fe_lastUpdateTime field of None \<Rightarrow> True | Some l \<Rightarrow> l = 0) \<or>
                      v_now s - the (fe_lastUpdateTime field) \<ge> throttleDelay s
                   then updateUrl k newParams s
                   else (let s1 = (case fe_updateTimer field of
                                     Some h \<Rightarrow>
                                       (if h \<noteq> 0
                                        then s\<lparr>v_timers := filter (\<lambda>t. fst t \<noteq> h) (v_timers s)\<rparr>
                                        else s)
                                   | None \<Rightarrow> s);
                             timeRemaining = throttleDelay s - (v_now s - the (fe_lastUpdateTime field));
                             h = v_nextTimer s1;
                             s2 = s1\<lparr>v_timers := v_timers s1 @ [(h, v_now s1 + max 0 timeRemaining, k, newParams)],
                                     v_nextTimer := h + 1\<rparr>
                         in update_entry k (\<lambda>f. f\<lparr>fe_updateTimer := Some h\<rparr>) s2)))"

text \<open>An assignment \<open>store[property] = v\<close>: the interceptors installed on the property
  run in the order they were installed, then the value is stored.\<close>

definition v_assign :: "store_id \<Rightarrow> string \<Rightarrow> jsval \<Rightarrow> vstate \<Rightarrow> vstate" where
  "v_assign sid p v s =
     (let s1 = foldl (\<lambda>s i. interceptor (snd (snd i)) v s) s
                 (filter (\<lambda>i. fst i = sid \<and> fst (snd i) = p) (v_interceptors s))
      in s1\<lparr>v_stores := (v_stores s1)(sid := (v_stores s1 sid)(p := v))\<rparr>)"

text \<open>\<open>loadFromURLForField\<close>: what \<open>deserialize\<close> throws goes to the caller.\<close>

definition loadFromURLForField :: "field_entry \<Rightarrow> vstate \<Rightarrow> (js_error + unit) \<times> vstate" where
  "loadFromURLForField field s =
     (let params = URLSearchParams (search (v_location s))
      in if usp_has params (queryParam field) then
           (case usp_get params (queryParam field) of
              Some valueStr \<Rightarrow>
                (case deserialize field valueStr of
                   Inr v \<Rightarrow> (Inr (), v_assign (store field) (property field) v s)
                 | Inl e \<Rightarrow> (Inl e, s))
            | None \<Rightarrow> (Inr (), s))
         else (Inr (), s))"

text \<open>\<open>startInterceptorForField\<close> calls \<open>intercept\<close>, which throws for a property that
  is not observable.\<close>

definition startInterceptorForField :: "field_entry \<Rightarrow> vstate \<Rightarrow> (js_error + unit) \<times> vstate" where
  "startInterceptorForField field s =
     (if v_observable s (store field) (property field)
      then (Inr (), s\<lparr>v_interceptors :=
                        v_interceptors s @ [(store field, property field, queryParam field)]\<rparr>)
      else (Inl (mobx_error (property field)), s))"

definition variant_duplicate_error :: "string \<Rightarrow> js_error" where
  "variant_duplicate_error qp =
     Error (''Query param '' @ [CHR 0x22] @ qp @ [CHR 0x22] @ '' is already registered.'')"

definition variant_missing_error :: "string \<Rightarrow> js_error" where
  "variant_missing_error prop =
     Error (''For property '' @ [CHR 0x22] @ prop @ [CHR 0x22] @
            '', custom serialize/deserialize functions must be provided.'')"

definition registerField ::
  "store_id \<Rightarrow> string \<Rightarrow> string \<Rightarrow> config \<Rightarrow> vstate \<Rightarrow> (js_error + unit) \<times> vstate"
where
  "registerField sid prop qp cfg s =
     (if map_has (v_fields s) qp then (Inl (variant_duplicate_error qp), s)
      else
        (let dv = (if config_defaultValue cfg = Undefined then v_stores s sid prop
                   else config_defaultValue cfg);
             auto = (if Option.is_none (config_serialize cfg) \<or> Option.is_none (config_deserialize cfg)
                     then getDefaultSerializer (defaultSerializers s) (v_stores s sid prop)
                     else None);
             ser = (case config_serialize cfg of Some f \<Rightarrow> Some f | None \<Rightarrow> map_option serialize auto);
             deser = (case config_deserialize cfg of Some g \<Rightarrow> Some g
                      | None \<Rightarrow> map_option deserialize auto)
         in case (ser, deser) of
              (Some f, Some g) \<Rightarrow>
                (let fieldEntry = \<lparr>serialize = f, deserialize = g, store = sid, property = prop,
                                   queryParam = qp, defaultValue = dv,
                                   fe_updateTimer = None, fe_lastUpdateTime = None\<rparr>;
                     s1 = s\<lparr>v_fields := map_set (v_fields s) qp fieldEntry\<rparr>
                 in case loadFromURLForField fieldEntry s1 of
                      (Inl e, s2) \<Rightarrow> (Inl e, s2)
                    | (Inr u, s2) \<Rightarrow> startInterceptorForField fieldEntry s2)
            | _ \<Rightarrow> (Inl (variant_missing_error prop), s)))"

text \<open>A timer of the variant fires.\<close>

definition v_fire_timer :: "nat \<Rightarrow> vstate \<Rightarrow> vstate" where
  "v_fire_timer h s =
     (case filter (\<lambda>t. fst t = h) (v_timers s) of
        [] \<Rightarrow> s
      | t # ts \<Rightarrow>
          updateUrl (fst (snd (snd t))) (snd (snd (snd t)))
            (s\<lparr>v_timers := filter (\<lambda>t. fst t \<noteq> h) (v_timers s),
               v_now := max (v_now s) (fst (snd t))\<rparr>))"

section \<open>Example states\<close>

text \<open>A page at \<open>https://example.com/app?counter=7\<close> with one store, number 0, whose
  \<open>counter\<close> is 0 and whose \<open>shape\<close> is an object of class \<open>Shape\<close>; an engine
  without custom serializers and with the default delay, at time 1000; and the same engine
  after \<open>register(store, 'counter', 'counter')\<close>.\<close>

definition ex_location :: location where
  "ex_location =
     \<lparr>origin = ''https://example.com'', pathname = ''/app'', search = ''?counter=7'', hash = []\<rparr>"

definition ex_stores :: "store_id \<Rightarrow> string \<Rightarrow> jsval" where
  "ex_stores = (\<lambda>sid p. if sid = 0 \<and> p = ''counter'' then Num 0
                         else if sid = 0 \<and> p = ''shape'' then Obj [''Shape''] ''circle''
                         else Undefined)"

definition ex_config :: config where
  "ex_config = \<lparr>config_defaultValue = Undefined, config_serialize = None, config_deserialize = None\<rparr>"

definition ex_engine :: state where
  "ex_engine = MobXURLSync [] None ex_stores (\<lambda>sid p. True) ex_location 1000"

definition ex_registered :: state where
  "ex_registered = snd (register 0 ''counter'' ''counter'' ex_config ex_engine)"

text \<open>The same engine on a store none of whose properties is observable.\<close>

definition ex_plain :: state where
  "ex_plain = MobXURLSync [] None ex_stores (\<lambda>sid p. False) ex_location 1000"

text \<open>A configuration whose \<open>deserialize\<close> throws, and one whose default value is
  \<open>null\<close>.\<close>

definition ex_config_throwing :: config where
  "ex_config_throwing =
     \<lparr>config_defaultValue = Undefined, config_serialize = Some String,
      config_deserialize = Some (\<lambda>raw. Inl (Error ''not a number''))\<rparr>"

definition ex_config_null :: config where
  "ex_config_null = \<lparr>config_defaultValue = Null, config_serialize = None, config_deserialize = None\<rparr>"

text \<open>The registered engine 200 time units after the flush that registration caused.\<close>

definition ex_later :: state where
  "ex_later = elapse 1200 ex_registered"

text \<open>The engine of \<open>ex_later\<close> once the application has set the counter back to 0.\<close>

definition ex_reset :: state where
  "ex_reset = set_property 0 ''counter'' (Num 0) ex_later"

text \<open>The engine registered on the page \<open>https://example.com/app\<close>, which has no
  query, and three assignments to the counter within ten time units after \<open>t\<close>.\<close>

definition ex_fresh :: state where
  "ex_fresh = snd (register 0 ''counter'' ''counter'' ex_config
     (MobXURLSync [] None ex_stores (\<lambda>sid p. True) (ex_location\<lparr>search := []\<rparr>) 1000))"

definition ex_burst :: "int \<Rightarrow> mutation list" where
  "ex_burst t =
     [\<lparr>at_time = t + 1, target = 0, prop_name = ''counter'', new_value = Num 1\<rparr>,
      \<lparr>at_time = t + 4, target = 0, prop_name = ''counter'', new_value = Num 2\<rparr>,
      \<lparr>at_time = t + 7, target = 0, prop_name = ''counter'', new_value = Num 3\<rparr>]"

text \<open>The variant on the same page and stores, before and after
  \<open>registerField(store, 'counter', 'counter')\<close>, and a configuration that gives the
  default value 0.\<close>

definition ex_variant :: vstate where
  "ex_variant = MobXURLSync_variant [] None ex_stores (\<lambda>sid p. True) ex_location 1000"

definition ex_variant_registered :: vstate where
  "ex_variant_registered = snd (registerField 0 ''counter'' ''counter'' ex_config ex_variant)"

text \<open>The variant on the store none of whose properties is observable.\<close>

definition ex_variant_plain :: vstate where
  "ex_variant_plain = MobXURLSync_variant [] None ex_stores (\<lambda>sid p. False) ex_location 1000"

definition ex_config_default0 :: config where
  "ex_config_default0 = \<lparr>config_defaultValue = Num 0, config_serialize = None, config_deserialize = None\<rparr>"

section \<open>Frame properties\<close>

lemma replaceState_frame [simp]:
  "stores (replaceState u s) = stores s"
  "fields_map (replaceState u s) = fields_map s"
  "interceptors (replaceState u s) = interceptors s"
  "timers (replaceState u s) = timers s"
  "updateTimer (replaceState u s) = updateTimer s"
  "lastUpdateTime (replaceState u s) = lastUpdateTime s"
  "now (replaceState u s) = now s"
  "nextTimer (replaceState u s) = nextTimer s"
  "debounceDelay (replaceState u s) = debounceDelay s"
  "serializers (replaceState u s) = serializers s"
  "observable (replaceState u s) = observable s"
  "reactionValue (replaceState u s) = reactionValue s"
  by (simp_all add: replaceState_def Let_def)

lemma applyUrlUpdate_frame [simp]:
  "stores (applyUrlUpdate s) = stores s"
  "fields_map (applyUrlUpdate s) = fields_map s"
  "interceptors (applyUrlUpdate s) = interceptors s"
  "timers (applyUrlUpdate s) = timers s"
  "updateTimer (applyUrlUpdate s) = updateTimer s"
  "lastUpdateTime (applyUrlUpdate s) = now s"
  "now (applyUrlUpdate s) = now s"
  "nextTimer (applyUrlUpdate s) = nextTimer s"
  "debounceDelay (applyUrlUpdate s) = debounceDelay s"
  "serializers (applyUrlUpdate s) = serializers s"
  "observable (applyUrlUpdate s) = observable s"
  "reactionValue (applyUrlUpdate s) = reactionValue s"
  by (simp_all add: applyUrlUpdate_def Let_def)

lemma scheduleUrlUpdate_frame [simp]:
  "stores (scheduleUrlUpdate s) = stores s"
  "fields_map (scheduleUrlUpdate s) = fields_map s"
  "interceptors (scheduleUrlUpdate s) = interceptors s"
  "now (scheduleUrlUpdate s) = now s"
  "debounceDelay (scheduleUrlUpdate s) = debounceDelay s"
  "serializers (scheduleUrlUpdate s) = serializers s"
  "observable (scheduleUrlUpdate s) = observable s"
  "reactionValue (scheduleUrlUpdate s) = reactionValue s"
  by (simp_all add: scheduleUrlUpdate_def setTimeout_def clearTimeout_def Let_def split: option.splits)

lemma reaction_frame [simp]:
  "stores (reaction s) = stores s"
  "fields_map (reaction s) = fields_map s"
  "interceptors (reaction s) = interceptors s"
  "now (reaction s) = now s"
  "debounceDelay (reaction s) = debounceDelay s"
  "serializers (reaction s) = serializers s"
  "observable (reaction s) = observable s"
  by (simp_all add: reaction_def Let_def)

lemma map_of_map_set: "map_of (map_set m k v) = (map_of m)(k \<mapsto> v)"
  by (induction m) (auto simp: fun_eq_iff)

lemma hydrate_frame [simp]:
  "fields_map (hydrate sid prop qp d s) = fields_map s"
  "interceptors (hydrate sid prop qp d s) = interceptors s"
  "observable (hydrate sid prop qp d s) = observable s"
  "reactionValue (hydrate sid prop qp d s) = reactionValue s"
  by (simp_all add: hydrate_def write_prop_def Let_def split: option.splits sum.splits)

lemma intercept_frame [simp]:
  "fst (intercept sid p s) = (if observable s sid p then Inr () else Inl (mobx_error p))"
  "stores (snd (intercept sid p s)) = stores s"
  "fields_map (snd (intercept sid p s)) = fields_map s"
  "observable (snd (intercept sid p s)) = observable s"
  "reactionValue (snd (intercept sid p s)) = reactionValue s"
  "interceptors (snd (intercept sid p s)) =
     (if observable s sid p then interceptors s @ [(sid, p)] else interceptors s)"
  by (simp_all add: intercept_def)

lemma register_cases:
  "register sid prop qp cfg s =
     (if map_has (fields_map s) qp then (Inl (duplicate_error qp), s)
      else case determine_serializer (serializers s) cfg
                  (nullish (config_defaultValue cfg) (read_prop s sid prop)) of
             (Some ser, Some deser) \<Rightarrow>
               (if observable s sid prop then Inr () else Inl (mobx_error prop),
                reaction (snd (intercept sid prop
                  ((hydrate sid prop qp deser s)\<lparr>fields_map :=
                     map_set (fields_map s) qp
                       \<lparr>serialize = ser, deserialize = deser, store = sid, property = prop,
                        queryParam = qp,
                        defaultValue = nullish (config_defaultValue cfg) (read_prop s sid prop)\<rparr>\<rparr>))))
           | _ \<Rightarrow> (Inl (missing_serializer_error prop), s))"
  by (simp add: register_def Let_def intercept_def split: prod.splits option.splits)

lemma hydrate_stores:
  "stores (hydrate sid prop qp deser s) =
     (case usp_get (URLSearchParams (search (location s))) qp of
        Some raw \<Rightarrow> (case deser raw of Inr v \<Rightarrow> (stores s)(sid := (stores s sid)(prop := v))
                     | Inl e \<Rightarrow> stores s)
      | None \<Rightarrow> stores s)"
  by (auto simp: hydrate_def write_prop_def usp_has_def usp_get_def Let_def map_of_eq_None_iff
      split: option.splits sum.splits dest: map_of_SomeD intro: rev_image_eqI)

section \<open>Registration\<close>

lemma errors_differ:
  "duplicate_error qp \<noteq> missing_serializer_error prop"
  "mobx_error p \<noteq> missing_serializer_error prop"
  "mobx_error p \<noteq> duplicate_error qp"
  by (simp_all add: duplicate_error_def missing_serializer_error_def mobx_error_def)

text \<open>
  C3. When the query parameter is already bound, \<open>register\<close> throws the duplicate error
  at once and leaves the whole state as it was: the first binding (store, property,
  serializers, default value) with it.
\<close>

theorem register_duplicate:
  "map_has (fields_map s) qp \<Longrightarrow>
     register sid prop qp cfg s = (Inl (duplicate_error qp), s) \<and>
     map_of (fields_map (snd (register sid prop qp cfg s))) qp = map_of (fields_map s) qp"
  by (simp add: register_def)

theorem register_duplicate_witness:
  "map_has (fields_map ex_registered) ''counter'' \<and>
   register 0 ''shape'' ''counter'' ex_config ex_registered =
     (Inl (duplicate_error ''counter''), ex_registered)"
proof -
  have h: "map_has (fields_map ex_registered) ''counter''"
    by code_simp
  show ?thesis
    using h register_duplicate [OF h] by simp
qed

text \<open>
  C10, as amended. Whenever \<open>register\<close> throws the duplicate error or the
  missing-serializer error, the state it leaves is the state it found: no new entry in the
  field map, no interceptor installed, no store property written. On a store property that
  is observable these are the only errors it throws.
\<close>

theorem register_atomic:
  assumes "fst (register sid prop qp cfg s) = Inl e"
      and "observable s sid prop \<or> e = duplicate_error qp \<or> e = missing_serializer_error prop"
    shows "snd (register sid prop qp cfg s) = s \<and>
           fields_map (snd (register sid prop qp cfg s)) = fields_map s \<and>
           interceptors (snd (register sid prop qp cfg s)) = interceptors s \<and>
           stores (snd (register sid prop qp cfg s)) = stores s"
proof -
  have "snd (register sid prop qp cfg s) = s"
    using assms errors_differ
    by (auto simp: register_cases split: if_splits prod.splits option.splits)
  then show ?thesis
    by simp
qed

theorem register_atomic_witness:
  "fst (register 0 ''shape'' ''shape'' ex_config ex_registered) =
     Inl (missing_serializer_error ''shape'') \<and>
   snd (register 0 ''shape'' ''shape'' ex_config ex_registered) = ex_registered"
proof -
  have h: "fst (register 0 ''shape'' ''shape'' ex_config ex_registered) =
             Inl (missing_serializer_error ''shape'')"
    by code_simp
  have o: "observable ex_registered 0 ''shape'' \<or>
           missing_serializer_error ''shape'' = duplicate_error ''shape'' \<or>
           missing_serializer_error ''shape'' = missing_serializer_error ''shape''"
    by simp
  show ?thesis
    using h register_atomic [OF h o] by simp
qed

text \<open>
  On a store whose \<open>counter\<close> is not observable, \<open>intercept\<close> throws in the last
  statement of \<open>register\<close>: the call raises with the entry filed and the counter
  hydrated from the URL.
\<close>

theorem register_not_atomic_counterexample:
  "fst (register 0 ''counter'' ''counter'' ex_config ex_plain) = Inl (mobx_error ''counter'') \<and>
   \<not> map_has (fields_map ex_plain) ''counter'' \<and>
   map_has (fields_map (snd (register 0 ''counter'' ''counter'' ex_config ex_plain))) ''counter'' \<and>
   read_prop ex_plain 0 ''counter'' = Num 0 \<and>
   read_prop (snd (register 0 ''counter'' ''counter'' ex_config ex_plain)) 0 ''counter'' = Str ''7''"
  by code_simp

text \<open>
  C1. When \<open>register\<close> returns and the query string of the current URL has the query
  parameter, the store property holds what the registered \<open>deserialize\<close> made of the raw
  value, whatever it held before.
\<close>

theorem hydration_precedence:
  assumes "register sid prop qp cfg s = (Inr (), s')"
      and "usp_has (URLSearchParams (search (location s))) qp"
      and "usp_get (URLSearchParams (search (location s))) qp = Some raw"
      and "map_of (fields_map s') qp = Some f"
      and "deserialize f raw = Inr v"
    shows "read_prop s' sid prop = v"
  using assms
  by (auto simp: register_cases map_of_map_set read_prop_def hydrate_stores
      split: if_splits prod.splits option.splits)

theorem hydration_precedence_witness:
  "usp_has (URLSearchParams (search (location ex_engine))) ''counter'' \<and>
   usp_get (URLSearchParams (search (location ex_engine))) ''counter'' = Some ''7'' \<and>
   read_prop ex_engine 0 ''counter'' = Num 0 \<and>
   read_prop ex_registered 0 ''counter'' = Str ''7''"
proof -
  have r: "fst (register 0 ''counter'' ''counter'' ex_config ex_engine) = Inr ()"
    by code_simp
  have h1: "register 0 ''counter'' ''counter'' ex_config ex_engine = (Inr (), ex_registered)"
    using r by (simp add: ex_registered_def prod_eq_iff)
  have h2: "usp_has (URLSearchParams (search (location ex_engine))) ''counter''"
    by code_simp
  have h3: "usp_get (URLSearchParams (search (location ex_engine))) ''counter'' = Some ''7''"
    by code_simp
  have "\<not> Option.is_none (map_of (fields_map ex_registered) ''counter'')"
    by code_simp
  then have h4: "map_of (fields_map ex_registered) ''counter'' =
                   Some (the (map_of (fields_map ex_registered) ''counter''))"
    by (simp add: Option.is_none_def)
  have h5: "deserialize (the (map_of (fields_map ex_registered) ''counter'')) ''7'' = Inr (Str ''7'')"
    by code_simp
  have h6: "read_prop ex_engine 0 ''counter'' = Num 0"
    by code_simp
  show ?thesis
    using hydration_precedence [OF h1 h2 h3 h4 h5] h2 h3 h6 by simp
qed



text \<open>
  C9. When the value the serializer is resolved for is a string, a number or a boolean,
  the lookup returns \<open>String\<close> and the identity on strings, and \<open>register\<close> never
  throws the missing-serializer error, whatever the configuration holds: it throws the
  duplicate error for a bound query parameter, and else returns (on a store property that
  is not observable, throws what \<open>intercept\<close> throws).
\<close>

theorem primitive_never_missing:
  assumes "typeof (nullish (config_defaultValue cfg) (read_prop s sid prop)) \<in>
             set [''string'', ''number'', ''boolean'']"
  shows "getAutoSerializer (serializers s) (nullish (config_defaultValue cfg) (read_prop s sid prop)) =
           Some \<lparr>serialize = String, deserialize = (\<lambda>raw. Inr (Str raw))\<rparr> \<and>
         fst (register sid prop qp cfg s) =
           (if map_has (fields_map s) qp then Inl (duplicate_error qp)
            else if observable s sid prop then Inr () else Inl (mobx_error prop)) \<and>
         fst (register sid prop qp cfg s) \<noteq> Inl (missing_serializer_error prop)"
proof -
  let ?v = "nullish (config_defaultValue cfg) (read_prop s sid prop)"
  have a: "getAutoSerializer (serializers s) ?v =
             Some \<lparr>serialize = String, deserialize = (\<lambda>raw. Inr (Str raw))\<rparr>"
    using assms by (simp add: getAutoSerializer_def)
  have "\<exists>ser deser. determine_serializer (serializers s) cfg ?v = (Some ser, Some deser)"
    by (cases "config_serialize cfg"; cases "config_deserialize cfg")
       (simp_all add: determine_serializer_def a Option.is_none_def)
  then have b: "fst (register sid prop qp cfg s) =
           (if map_has (fields_map s) qp then Inl (duplicate_error qp)
            else if observable s sid prop then Inr () else Inl (mobx_error prop))"
    by (auto simp: register_cases)
  show ?thesis
    using a b errors_differ by auto
qed

theorem primitive_never_missing_witness:
  "typeof (read_prop ex_engine 0 ''counter'') = ''number'' \<and>
   fst (register 0 ''counter'' ''counter'' ex_config ex_engine) = Inr ()"
proof -
  have h: "typeof (nullish (config_defaultValue ex_config) (read_prop ex_engine 0 ''counter'')) \<in>
             set [''string'', ''number'', ''boolean'']"
    by code_simp
  have m: "\<not> map_has (fields_map ex_engine) ''counter''"
    by code_simp
  have t: "typeof (read_prop ex_engine 0 ''counter'') = ''number''"
    by code_simp
  have o: "observable ex_engine 0 ''counter''"
    by code_simp
  show ?thesis
    using primitive_never_missing [OF h, of "''counter''"] m t o by simp
qed

text \<open>
  C4, as amended. For a query parameter that is not bound yet, \<open>register\<close> throws the
  missing-serializer error, which names the property, exactly when a half is missing from
  the configuration and no serializer is found for the default value; otherwise it
  returns (on a store property that is not observable, throws what \<open>intercept\<close>
  throws), and the field it files has the default value and, for each half, the
  configuration's function when there is one and the found serializer's otherwise. The
  default value is \<open>config.defaultValue\<close> unless that is \<open>undefined\<close> or \<open>null\<close>, and
  then the value the store property has before hydration.
\<close>

theorem serializer_resolution:
  assumes "\<not> map_has (fields_map s) qp"
  shows "(fst (register sid prop qp cfg s) = Inl (missing_serializer_error prop) \<longleftrightarrow>
            (Option.is_none (config_serialize cfg) \<or> Option.is_none (config_deserialize cfg)) \<and>
            Option.is_none (getAutoSerializer (serializers s)
               (nullish (config_defaultValue cfg) (read_prop s sid prop)))) \<and>
         (fst (register sid prop qp cfg s) \<noteq> Inl (missing_serializer_error prop) \<longrightarrow>
            fst (register sid prop qp cfg s) =
              (if observable s sid prop then Inr () else Inl (mobx_error prop)) \<and>
            (\<exists>f. map_of (fields_map (snd (register sid prop qp cfg s))) qp = Some f \<and>
                 store f = sid \<and> property f = prop \<and> queryParam f = qp \<and>
                 defaultValue f = nullish (config_defaultValue cfg) (read_prop s sid prop) \<and>
                 serialize f =
                   (case config_serialize cfg of Some g \<Rightarrow> g
                    | None \<Rightarrow> serialize (the (getAutoSerializer (serializers s)
                         (nullish (config_defaultValue cfg) (read_prop s sid prop))))) \<and>
                 deserialize f =
                   (case config_deserialize cfg of Some g \<Rightarrow> g
                    | None \<Rightarrow> deserialize (the (getAutoSerializer (serializers s)
                         (nullish (config_defaultValue cfg) (read_prop s sid prop)))))))"
  using assms
  by (cases "config_serialize cfg"; cases "config_deserialize cfg";
      cases "getAutoSerializer (serializers s) (nullish (config_defaultValue cfg) (read_prop s sid prop))")
     (simp_all add: register_cases determine_serializer_def Option.is_none_def map_of_map_set
        errors_differ)

theorem serializer_resolution_witness:
  "\<not> map_has (fields_map ex_engine) ''shape'' \<and>
   Option.is_none (getAutoSerializer (serializers ex_engine)
      (nullish (config_defaultValue ex_config) (read_prop ex_engine 0 ''shape''))) \<and>
   fst (register 0 ''shape'' ''shape'' ex_config ex_engine) = Inl (missing_serializer_error ''shape'')"
proof -
  have h: "\<not> map_has (fields_map ex_engine) ''shape''"
    by code_simp
  have a: "Option.is_none (getAutoSerializer (serializers ex_engine)
             (nullish (config_defaultValue ex_config) (read_prop ex_engine 0 ''shape'')))"
    by code_simp
  have c: "Option.is_none (config_serialize ex_config)"
    by code_simp
  show ?thesis
    using serializer_resolution [OF h, of 0 "''shape''" ex_config] h a c by simp
qed

text \<open>
  With \<open>defaultValue: null\<close> given, a store value of 0 and no serializer at all, the claim
  as worded resolves for \<open>null\<close>, finds nothing and has \<open>register\<close> throw; the code
  resolves for 0 and returns.
\<close>

theorem given_null_default_counterexample:
  "\<not> (fst (register 0 ''counter'' ''counter'' ex_config_null ex_engine) =
         Inl (missing_serializer_error ''counter'') \<longleftrightarrow>
       (Option.is_none (config_serialize ex_config_null) \<or>
        Option.is_none (config_deserialize ex_config_null)) \<and>
       Option.is_none (getAutoSerializer (serializers ex_engine)
          (claimed_defaultValue ex_config_null (read_prop ex_engine 0 ''counter''))))"
  by code_simp

section \<open>More frame properties\<close>

lemma write_prop_frame [simp]:
  "fields_map (write_prop sid p v s) = fields_map s"
  "interceptors (write_prop sid p v s) = interceptors s"
  "timers (write_prop sid p v s) = timers s"
  "updateTimer (write_prop sid p v s) = updateTimer s"
  "lastUpdateTime (write_prop sid p v s) = lastUpdateTime s"
  "now (write_prop sid p v s) = now s"
  "nextTimer (write_prop sid p v s) = nextTimer s"
  "debounceDelay (write_prop sid p v s) = debounceDelay s"
  "serializers (write_prop sid p v s) = serializers s"
  "observable (write_prop sid p v s) = observable s"
  "reactionValue (write_prop sid p v s) = reactionValue s"
  "location (write_prop sid p v s) = location s"
  "replaced (write_prop sid p v s) = replaced s"
  by (simp_all add: write_prop_def)

lemma hydrate_frame2 [simp]:
  "timers (hydrate sid prop qp d s) = timers s"
  "updateTimer (hydrate sid prop qp d s) = updateTimer s"
  "lastUpdateTime (hydrate sid prop qp d s) = lastUpdateTime s"
  "now (hydrate sid prop qp d s) = now s"
  "nextTimer (hydrate sid prop qp d s) = nextTimer s"
  "debounceDelay (hydrate sid prop qp d s) = debounceDelay s"
  "serializers (hydrate sid prop qp d s) = serializers s"
  "location (hydrate sid prop qp d s) = location s"
  "replaced (hydrate sid prop qp d s) = replaced s"
  by (simp_all add: hydrate_def Let_def split: option.splits sum.splits)

lemma intercept_frame2 [simp]:
  "timers (snd (intercept sid p s)) = timers s"
  "updateTimer (snd (intercept sid p s)) = updateTimer s"
  "lastUpdateTime (snd (intercept sid p s)) = lastUpdateTime s"
  "now (snd (intercept sid p s)) = now s"
  "nextTimer (snd (intercept sid p s)) = nextTimer s"
  "debounceDelay (snd (intercept sid p s)) = debounceDelay s"
  "serializers (snd (intercept sid p s)) = serializers s"
  "location (snd (intercept sid p s)) = location s"
  "replaced (snd (intercept sid p s)) = replaced s"
  by (simp_all add: intercept_def)

text \<open>The state \<open>register\<close> leaves: the one it found, or the one after hydration, filing,
  the call of \<open>intercept\<close> and the reaction.\<close>

lemma register_state_cases:
  obtains (unchanged) "snd (register sid prop qp cfg s) = s"
  | (filed) ser deser where
      "\<not> map_has (fields_map s) qp"
      "snd (register sid prop qp cfg s) =
         reaction (snd (intercept sid prop
           ((hydrate sid prop qp deser s)\<lparr>fields_map :=
              map_set (fields_map s) qp
                \<lparr>serialize = ser, deserialize = deser, store = sid, property = prop,
                 queryParam = qp,
                 defaultValue = nullish (config_defaultValue cfg) (read_prop s sid prop)\<rparr>\<rparr>)))"
proof (cases "map_has (fields_map s) qp")
  case True
  then show ?thesis using unchanged by (simp add: register_cases)
next
  case False
  obtain a b where d: "determine_serializer (serializers s) cfg
                         (nullish (config_defaultValue cfg) (read_prop s sid prop)) = (a, b)"
    by (cases "determine_serializer (serializers s) cfg
                 (nullish (config_defaultValue cfg) (read_prop s sid prop))")
  show ?thesis
  proof (cases a)
    case None
    then show ?thesis using unchanged False d by (simp add: register_cases)
  next
    case sa: (Some ser)
    show ?thesis
    proof (cases b)
      case None
      then show ?thesis using unchanged False d sa by (simp add: register_cases)
    next
      case (Some deser)
      then show ?thesis using filed [of ser deser] False d sa by (simp add: register_cases)
    qed
  qed
qed

section \<open>The scheduler\<close>

lemma no_timer_state:
  "timers s = [] \<Longrightarrow> updateTimer s = None \<Longrightarrow> s\<lparr>timers := [], updateTimer := None\<rparr> = s"
  by (cases s) simp

lemma scheduleUrlUpdate_now:
  assumes "timer_ok s" "lastUpdateTime s = 0 \<or> now s - lastUpdateTime s \<ge> debounceDelay s"
  shows "scheduleUrlUpdate s = applyUrlUpdate (s\<lparr>timers := [], updateTimer := None\<rparr>)"
  using assms
  by (cases "updateTimer s")
     (auto simp: scheduleUrlUpdate_def timer_ok_def clearTimeout_def Let_def no_timer_state)

lemma scheduleUrlUpdate_later:
  assumes "timer_ok s" "\<not> (lastUpdateTime s = 0 \<or> now s - lastUpdateTime s \<ge> debounceDelay s)"
  shows "scheduleUrlUpdate s =
           s\<lparr>timers := [(nextTimer s, now s + (debounceDelay s - (now s - lastUpdateTime s)))],
             nextTimer := nextTimer s + 1, updateTimer := Some (nextTimer s)\<rparr>"
  using assms
  by (cases "updateTimer s")
     (auto simp: scheduleUrlUpdate_def timer_ok_def clearTimeout_def setTimeout_def Let_def max_def)

lemma timer_ok_applyUrlUpdate:
  "updateTimer s = None \<Longrightarrow> timers s = [] \<Longrightarrow> timer_ok (applyUrlUpdate s)"
  by (simp add: timer_ok_def)

lemma timer_ok_scheduleUrlUpdate: "timer_ok s \<Longrightarrow> timer_ok (scheduleUrlUpdate s)"
proof (cases "lastUpdateTime s = 0 \<or> now s - lastUpdateTime s \<ge> debounceDelay s")
  case True
  assume "timer_ok s"
  then show ?thesis
    using True by (simp add: scheduleUrlUpdate_now timer_ok_applyUrlUpdate)
next
  case False
  assume "timer_ok s"
  then show ?thesis
    using False by (simp add: scheduleUrlUpdate_later) (simp add: timer_ok_def)
qed

lemma timer_ok_frame:
  "timer_ok s \<Longrightarrow> timers s' = timers s \<Longrightarrow> updateTimer s' = updateTimer s \<Longrightarrow>
   lastUpdateTime s' = lastUpdateTime s \<Longrightarrow> debounceDelay s' = debounceDelay s \<Longrightarrow>
   timer_ok s'"
  by (simp add: timer_ok_def split: option.splits)

lemma timer_ok_reaction: "timer_ok s \<Longrightarrow> timer_ok (reaction s)"
proof -
  assume ok: "timer_ok s"
  have "timer_ok (s\<lparr>reactionValue := buildQueryString s\<rparr>)"
    by (rule timer_ok_frame [OF ok]) simp_all
  then show ?thesis
    using ok by (simp add: reaction_def Let_def timer_ok_scheduleUrlUpdate)
qed

lemma timer_ok_set_property: "timer_ok s \<Longrightarrow> timer_ok (set_property sid p v s)"
proof -
  assume ok: "timer_ok s"
  have "timer_ok (write_prop sid p v s)"
    by (rule timer_ok_frame [OF ok]) simp_all
  then show ?thesis
    by (simp add: set_property_def timer_ok_reaction)
qed

lemma timer_ok_register:
  assumes "timer_ok s"
  shows "timer_ok (snd (register sid prop qp cfg s))"
proof (cases rule: register_state_cases [of sid "prop" qp cfg s])
  case unchanged
  then show ?thesis using assms by simp
next
  case (filed ser deser)
  have "timer_ok (snd (intercept sid prop ((hydrate sid prop qp deser s)\<lparr>fields_map :=
         map_set (fields_map s) qp
           \<lparr>serialize = ser, deserialize = deser, store = sid, property = prop, queryParam = qp,
            defaultValue = nullish (config_defaultValue cfg) (read_prop s sid prop)\<rparr>\<rparr>)))"
    by (rule timer_ok_frame [OF assms]) simp_all
  then show ?thesis
    using filed(2) by (simp add: timer_ok_reaction)
qed

lemma timer_ok_init: "timer_ok (MobXURLSync sers opt sts obs loc t)"
  by (simp add: timer_ok_def MobXURLSync_def)

lemma fire_timer_pending:
  assumes "timer_ok s" "updateTimer s = Some h"
  shows "fire_timer (h, lastUpdateTime s + debounceDelay s) s =
           (applyUrlUpdate (s\<lparr>timers := [], now := max (now s) (lastUpdateTime s + debounceDelay s)\<rparr>))
             \<lparr>updateTimer := None\<rparr>"
  using assms
  by (simp add: fire_timer_def timer_ok_def timer_callback_def clearTimeout_def)

lemma elapse_idle:
  assumes "timer_ok s" "updateTimer s = None"
  shows "elapse t s = s\<lparr>now := max (now s) t\<rparr>"
  using assms by (simp add: elapse_def timer_ok_def)

lemma elapse_early:
  assumes "timer_ok s" "t < lastUpdateTime s + debounceDelay s"
  shows "elapse t s = s\<lparr>now := max (now s) t\<rparr>"
  using assms by (cases "updateTimer s") (simp_all add: elapse_def timer_ok_def)

lemma elapse_due:
  assumes "timer_ok s" "updateTimer s = Some h" "lastUpdateTime s + debounceDelay s \<le> t"
  shows "elapse t s =
           (applyUrlUpdate (s\<lparr>timers := [], now := max (now s) (lastUpdateTime s + debounceDelay s)\<rparr>))
             \<lparr>updateTimer := None, now := max (max (now s) (lastUpdateTime s + debounceDelay s)) t\<rparr>"
proof -
  have "timers s = [(h, lastUpdateTime s + debounceDelay s)]"
    using assms by (simp add: timer_ok_def)
  then show ?thesis
    using assms by (simp add: elapse_def fire_timer_pending)
qed

lemma timer_ok_elapse: "timer_ok s \<Longrightarrow> timer_ok (elapse t s)"
proof (cases "updateTimer s")
  case None
  assume "timer_ok s"
  then show ?thesis using None by (simp add: elapse_idle) (simp add: timer_ok_def split: option.splits)
next
  case (Some h)
  assume ok: "timer_ok s"
  show ?thesis
  proof (cases "lastUpdateTime s + debounceDelay s \<le> t")
    case True
    then show ?thesis using ok Some by (simp add: elapse_due) (simp add: timer_ok_def split: option.splits)
  next
    case False
    then show ?thesis using ok by (simp add: elapse_early) (simp add: timer_ok_def split: option.splits)
  qed
qed

lemma timer_ok_step: "timer_ok s \<Longrightarrow> timer_ok (step s e)"
  by (cases e) (simp_all add: timer_ok_register timer_ok_set_property timer_ok_elapse)

lemma timer_ok_run: "timer_ok s \<Longrightarrow> timer_ok (run evs s)"
  unfolding run_def by (induction evs arbitrary: s) (simp_all add: timer_ok_step)

lemma at_most_one_timer: "length (timers (run evs (MobXURLSync sers opt sts obs loc t))) \<le> 1"
  using timer_ok_run [OF timer_ok_init, of evs sers opt sts obs loc t]
  by (simp add: timer_ok_def split: option.splits)

text \<open>
  C7. A dirty signal reaches \<open>scheduleUrlUpdate\<close> at time \<open>now\<close>. When no flush has
  happened yet or at least the delay has passed since the last one, the flush happens at
  once, \<open>lastUpdateTime\<close> becomes \<open>now\<close> and no timer is left pending. Otherwise the
  pending timer, if any, is cancelled and one new timer is armed for the delay less the
  time elapsed, nothing being written. Either way at most one timer is pending afterwards.
\<close>

theorem schedule_transition:
  assumes "timer_ok s"
  shows "(if lastUpdateTime s = 0 \<or> now s - lastUpdateTime s \<ge> debounceDelay s
          then scheduleUrlUpdate s = applyUrlUpdate (s\<lparr>timers := [], updateTimer := None\<rparr>) \<and>
               lastUpdateTime (scheduleUrlUpdate s) = now s \<and>
               timers (scheduleUrlUpdate s) = [] \<and>
               updateTimer (scheduleUrlUpdate s) = None
          else timers (scheduleUrlUpdate s) =
                 [(nextTimer s, now s + (debounceDelay s - (now s - lastUpdateTime s)))] \<and>
               updateTimer (scheduleUrlUpdate s) = Some (nextTimer s) \<and>
               lastUpdateTime (scheduleUrlUpdate s) = lastUpdateTime s \<and>
               replaced (scheduleUrlUpdate s) = replaced s \<and>
               location (scheduleUrlUpdate s) = location s) \<and>
         length (timers (scheduleUrlUpdate s)) \<le> 1 \<and>
         timer_ok (scheduleUrlUpdate s)"
proof (cases "lastUpdateTime s = 0 \<or> now s - lastUpdateTime s \<ge> debounceDelay s")
  case True
  then show ?thesis
    using assms timer_ok_scheduleUrlUpdate [OF assms]
    by (simp add: scheduleUrlUpdate_now)
next
  case False
  then show ?thesis
    using assms timer_ok_scheduleUrlUpdate [OF assms]
    by (simp add: scheduleUrlUpdate_later)
qed


theorem schedule_transition_witness:
  "timer_ok ex_later \<and>
   timers (scheduleUrlUpdate ex_later) = [(1, 1500)] \<and>
   updateTimer (scheduleUrlUpdate ex_later) = Some 1 \<and>
   length (timers (scheduleUrlUpdate ex_later)) \<le> 1"
proof -
  have h: "timer_ok ex_later"
    by code_simp
  have v: "lastUpdateTime ex_later = 1000" "now ex_later = 1200" "debounceDelay ex_later = 500"
          "nextTimer ex_later = 1"
    by code_simp+
  show ?thesis
    using schedule_transition [OF h] h v by simp
qed

section \<open>Serializing and parsing a query string\<close>

lemma of_char_less_256: "(of_char c :: nat) < 256"
proof -
  have "(of_char c :: nat) mod 256 = of_char c" by simp
  then show ?thesis by (metis mod_less_divisor zero_less_numeral)
qed

lemma hex_digit_props:
  assumes "d < 16"
  shows "is_hex (hex_digit d)" "hex_val (hex_digit d) = d"
  using assms by (auto simp: is_hex_def hex_val_def hex_digit_def Let_def)

lemma form_safe_not_special:
  "form_safe c \<Longrightarrow> c \<noteq> CHR ''+'' \<and> c \<noteq> CHR ''%'' \<and> c \<noteq> CHR ''='' \<and> c \<noteq> CHR ''&'' \<and> c \<noteq> CHR ''?''"
  by (auto simp: form_safe_def Let_def)

lemma hex_digit_not_special:
  "d < 16 \<Longrightarrow> hex_digit d \<noteq> CHR ''='' \<and> hex_digit d \<noteq> CHR ''&'' \<and> hex_digit d \<noteq> CHR ''?''"
  by (auto simp: hex_digit_def char_of_eq_iff take_bit_eq_mod)

lemma decode_encode_byte: "form_decode (encode_byte c @ t) = c # form_decode t"
proof -
  let ?n = "of_char c :: nat"
  have d: "?n div 16 < 16" "?n mod 16 < 16"
    using of_char_less_256 [of c] by (simp_all add: less_mult_imp_div_less)
  have "char_of (16 * (?n div 16) + ?n mod 16) = c"
    by simp
  then show ?thesis
    using form_safe_not_special [of c] hex_digit_props [OF d(1)] hex_digit_props [OF d(2)]
    by (simp add: encode_byte_def)
qed

lemma decode_encode_append: "form_decode (form_encode s @ t) = s @ form_decode t"
  by (induction s) (simp_all add: form_encode_def decode_encode_byte)

lemma decode_encode: "form_decode (form_encode s) = s"
  using decode_encode_append [of s "[]"] by simp

lemma encode_byte_chars:
  "x \<in> set (encode_byte c) \<Longrightarrow> x \<noteq> CHR ''='' \<and> x \<noteq> CHR ''&'' \<and> x \<noteq> CHR ''?''"
proof -
  assume x: "x \<in> set (encode_byte c)"
  let ?n = "of_char c :: nat"
  have d: "?n div 16 < 16" "?n mod 16 < 16"
    using of_char_less_256 [of c] by (simp_all add: less_mult_imp_div_less)
  show ?thesis
    using x form_safe_not_special [of c] hex_digit_not_special [OF d(1)] hex_digit_not_special [OF d(2)]
    by (auto simp: encode_byte_def split: if_splits)
qed

lemma form_encode_chars:
  "x \<in> set (form_encode s) \<Longrightarrow> x \<noteq> CHR ''='' \<and> x \<noteq> CHR ''&'' \<and> x \<noteq> CHR ''?''"
  by (auto simp: form_encode_def dest: encode_byte_chars)

lemma parse_render_pair: "parse_pair (render_pair p) = p"
proof -
  have a: "\<forall>x\<in>set (form_encode (fst p)). x \<noteq> CHR ''=''"
    using form_encode_chars by blast
  have "takeWhile (\<lambda>c. c \<noteq> CHR ''='') (render_pair p) = form_encode (fst p)"
    using a by (simp add: render_pair_def takeWhile_append2)
  moreover have "dropWhile (\<lambda>c. c \<noteq> CHR ''='') (render_pair p) = CHR ''='' # form_encode (snd p)"
    using a by (simp add: render_pair_def dropWhile_append2)
  ultimately show ?thesis
    by (simp add: parse_pair_def decode_encode)
qed

lemma render_pair_chars: "x \<in> set (render_pair p) \<Longrightarrow> x \<noteq> CHR ''&'' \<and> x \<noteq> CHR ''?''"
  using form_encode_chars by (fastforce simp: render_pair_def)

lemma render_pair_nonempty: "render_pair p \<noteq> []"
  by (simp add: render_pair_def)

lemma split_on_none: "sep \<notin> set x \<Longrightarrow> split_on sep x = [x]"
  by (induction x) auto

lemma split_on_append: "sep \<notin> set x \<Longrightarrow> split_on sep (x @ sep # r) = x # split_on sep r"
  by (induction x) auto

lemma split_join:
  "xs \<noteq> [] \<Longrightarrow> \<forall>x\<in>set xs. CHR ''&'' \<notin> set x \<Longrightarrow> split_on (CHR ''&'') (join_amp xs) = xs"
proof (induction xs rule: join_amp.induct)
  case 1
  then show ?case by simp
next
  case (2 s)
  then show ?case by (simp add: split_on_none)
next
  case (3 s t ss)
  then show ?case by (simp add: split_on_append)
qed

lemma join_amp_chars:
  "x \<in> set (join_amp xs) \<Longrightarrow> x = CHR ''&'' \<or> (\<exists>s\<in>set xs. x \<in> set s)"
  by (induction xs rule: join_amp.induct) auto

lemma toString_chars: "x \<in> set (usp_toString ps) \<Longrightarrow> x \<noteq> CHR ''?''"
  using join_amp_chars [of x "map render_pair ps"] render_pair_chars
  by (auto simp: usp_toString_def)

lemma toString_empty_iff: "usp_toString ps = [] \<longleftrightarrow> ps = []"
proof (cases ps)
  case Nil
  then show ?thesis by (simp add: usp_toString_def)
next
  case (Cons p ps')
  then show ?thesis
    by (cases ps') (simp_all add: usp_toString_def render_pair_nonempty)
qed

lemma parse_toString: "map parse_pair (filter (\<lambda>p. p \<noteq> []) (split_on (CHR ''&'') (usp_toString ps))) = ps"
proof (cases "ps = []")
  case True
  then show ?thesis by (simp add: usp_toString_def)
next
  case False
  have "split_on (CHR ''&'') (usp_toString ps) = map render_pair ps"
    unfolding usp_toString_def
    using False render_pair_chars by (intro split_join) auto
  then show ?thesis
    by (simp add: filter_map o_def render_pair_nonempty parse_render_pair)
qed

lemma URLSearchParams_toString: "URLSearchParams (usp_toString ps) = ps"
proof (cases "usp_toString ps")
  case Nil
  then show ?thesis
    using toString_empty_iff [of ps] by (simp add: URLSearchParams_def)
next
  case (Cons c cs)
  then have "c \<noteq> CHR ''?''"
    using toString_chars [of c ps] by simp
  then show ?thesis
    using Cons parse_toString [of ps] by (simp add: URLSearchParams_def)
qed

lemma URLSearchParams_query_toString: "URLSearchParams (CHR ''?'' # usp_toString ps) = ps"
  using parse_toString [of ps] by (simp add: URLSearchParams_def)

section \<open>The flush\<close>

lemma takeWhile_twice_append:
  "takeWhile P (takeWhile P xs @ ys) = takeWhile P xs @ takeWhile P ys"
  by (induction xs) auto

lemma takeWhile_nosep_append:
  "c \<notin> set xs \<Longrightarrow> takeWhile (\<lambda>x. x \<noteq> c) (xs @ ys) = xs @ takeWhile (\<lambda>x. x \<noteq> c) ys"
  by (induction xs) auto

lemma takeWhile_nosep: "c \<notin> set xs \<Longrightarrow> takeWhile (\<lambda>x. x \<noteq> c) xs = xs"
  by (induction xs) auto

lemma dropWhile_nosep_append:
  "c \<notin> set xs \<Longrightarrow> dropWhile (\<lambda>x. x \<noteq> c) (xs @ ys) = dropWhile (\<lambda>x. x \<noteq> c) ys"
  by (induction xs) auto

lemma dropWhile_nosep: "c \<notin> set xs \<Longrightarrow> dropWhile (\<lambda>x. x \<noteq> c) xs = []"
  by (induction xs) auto

lemma build_params_cong:
  "fields_map s' = fields_map s \<Longrightarrow> stores s' = stores s \<Longrightarrow> build_params s' = build_params s"
proof -
  assume a: "fields_map s' = fields_map s" "stores s' = stores s"
  then have "add_field s' = add_field s"
    by (simp add: fun_eq_iff add_field_def read_prop_def)
  then show ?thesis
    using a by (simp add: build_params_def)
qed

lemma buildQueryString_cong:
  "fields_map s' = fields_map s \<Longrightarrow> stores s' = stores s \<Longrightarrow>
   buildQueryString s' = buildQueryString s"
  by (simp add: buildQueryString_def build_params_cong [of s' s])

lemma guard_always:
  assumes "location_ok l" and q: "q = [] \<or> hd q = CHR ''?''"
  shows "pathname l @ q \<noteq> takeWhile (\<lambda>c. c \<noteq> CHR ''?'') (href l) @ search l"
proof
  let ?p = "\<lambda>c. c \<noteq> CHR ''?''"
  assume eq: "pathname l @ q = takeWhile ?p (href l) @ search l"
  have l: "takeWhile ?p (pathname l @ q) = pathname l"
    using assms by (cases q) (auto simp: location_ok_def takeWhile_nosep_append)
  have t: "takeWhile ?p (href l) = origin l @ pathname l @ takeWhile ?p (search l @ hash l)"
    using assms by (simp add: href_def location_ok_def takeWhile_nosep_append)
  have "takeWhile ?p (takeWhile ?p (href l) @ search l) =
          takeWhile ?p (href l) @ takeWhile ?p (search l)"
    by (rule takeWhile_twice_append)
  then have "length (takeWhile ?p (takeWhile ?p (href l) @ search l)) \<ge>
               length (origin l) + length (pathname l)"
    by (simp only: t length_append)
  moreover have "length (origin l) > 0"
    using assms by (simp add: location_ok_def)
  moreover have "length (takeWhile ?p (takeWhile ?p (href l) @ search l)) = length (pathname l)"
    using eq l by (simp only:)
  ultimately show False
    by linarith
qed

lemma applyUrlUpdate_writes:
  assumes "location_ok (location s)"
  shows "applyUrlUpdate s = replaceState (desired_url s) (s\<lparr>lastUpdateTime := now s\<rparr>)"
proof -
  let ?s1 = "s\<lparr>lastUpdateTime := now s\<rparr>"
  let ?cur = "takeWhile (\<lambda>c. c \<noteq> CHR ''?'') (href (location s)) @ search (location s)"
  have b: "buildQueryString ?s1 = buildQueryString s"
    by (rule buildQueryString_cong) simp_all
  show ?thesis
  proof (cases "buildQueryString s = []")
    case True
    have "pathname (location s) \<noteq> ?cur"
      using guard_always [OF assms, of "[]"] by simp
    then show ?thesis
      using True by (simp add: applyUrlUpdate_def Let_def b desired_url_def)
  next
    case False
    have "pathname (location s) @ CHR ''?'' # buildQueryString s \<noteq> ?cur"
      using guard_always [OF assms, of "CHR ''?'' # buildQueryString s"] by simp
    then show ?thesis
      using False by (simp add: applyUrlUpdate_def Let_def b desired_url_def)
  qed
qed

lemma replaceState_location:
  assumes "CHR ''?'' \<notin> set (pathname (location s))"
  shows "location (replaceState (desired_url s) s') =
           (location s')\<lparr>pathname := pathname (location s),
                         search := (if buildQueryString s \<noteq> [] then CHR ''?'' # buildQueryString s else []),
                         hash := []\<rparr>"
  using assms
  by (simp add: replaceState_def desired_url_def Let_def takeWhile_nosep_append
        dropWhile_nosep_append takeWhile_nosep dropWhile_nosep)

lemma flush_always_writes:
  "location_ok (location s) \<Longrightarrow> replaced (applyUrlUpdate s) = replaced s @ [desired_url s]"
  by (simp add: applyUrlUpdate_writes replaceState_def Let_def)

lemma flush_location:
  assumes "location_ok (location s)"
  shows "location (applyUrlUpdate s) =
           (location s)\<lparr>search := (if buildQueryString s \<noteq> [] then CHR ''?'' # buildQueryString s else []),
                        hash := []\<rparr>"
  using assms
  by (simp add: applyUrlUpdate_writes replaceState_location location_ok_def)

lemma flush_params:
  assumes "location_ok (location s)"
  shows "URLSearchParams (search (location (applyUrlUpdate s))) = build_params s"
proof (cases "buildQueryString s = []")
  case True
  then have "build_params s = []"
    by (simp add: buildQueryString_def toString_empty_iff)
  then show ?thesis
    using True assms by (simp add: flush_location URLSearchParams_def)
next
  case False
  then show ?thesis
    using assms
    by (simp add: flush_location) (simp add: buildQueryString_def URLSearchParams_query_toString)
qed

text \<open>
  C6. On a location as browsers present it, a flush always calls
  \<open>history.replaceState\<close>: the guard compares a path with an absolute URL. On the page
  \<open>https://example.com/app?counter=7\<close> with the counter registered and holding 7, the
  desired parameters are the current ones; the registration has written the URL once
  already and the next flush writes it again, \<open>lastUpdateTime\<close> being updated.
\<close>

theorem noop_flush_writes:
  "build_params ex_later = URLSearchParams (search (location ex_later)) \<and>
   replaced ex_later = [''/app?counter=7''] \<and>
   replaced (applyUrlUpdate ex_later) = [''/app?counter=7'', ''/app?counter=7''] \<and>
   lastUpdateTime (applyUrlUpdate ex_later) = 1200"
  by code_simp

section \<open>The desired parameters\<close>

lemma usp_set_fresh: "k \<notin> fst ` set ps \<Longrightarrow> usp_set ps k v = ps @ [(k, v)]"
  by (induction ps) auto

lemma foldl_add_field:
  "distinct (map (\<lambda>kf. queryParam (snd kf)) fs) \<Longrightarrow>
   fst ` set acc \<inter> (\<lambda>kf. queryParam (snd kf)) ` set fs = {} \<Longrightarrow>
   foldl (add_field s) acc fs = acc @ map (field_pair s) (filter (field_differs s) fs)"
proof (induction fs arbitrary: acc)
  case Nil
  then show ?case by simp
next
  case (Cons kf fs)
  show ?case
  proof (cases "field_differs s kf")
    case True
    have fresh: "queryParam (snd kf) \<notin> fst ` set acc"
      using Cons.prems(2) by auto
    have step: "add_field s acc kf = acc @ [field_pair s kf]"
      using True fresh by (simp add: add_field_def field_differs_def field_pair_def Let_def usp_set_fresh)
    have "fst ` set (acc @ [field_pair s kf]) \<inter> (\<lambda>kf. queryParam (snd kf)) ` set fs = {}"
      using Cons.prems by (auto simp: field_pair_def)
    then show ?thesis
      using Cons.IH [of "acc @ [field_pair s kf]"] Cons.prems(1) True step by simp
  next
    case False
    then have step: "add_field s acc kf = acc"
      by (simp add: add_field_def field_differs_def Let_def)
    have "fst ` set acc \<inter> (\<lambda>kf. queryParam (snd kf)) ` set fs = {}"
      using Cons.prems(2) by auto
    then show ?thesis
      using Cons.IH [of acc] Cons.prems(1) False step by simp
  qed
qed

lemma fields_ok_keys:
  "fields_ok s \<Longrightarrow> map (\<lambda>kf. queryParam (snd kf)) (fields_map s) = map fst (fields_map s)"
  by (simp add: fields_ok_def list_all_iff)

lemma build_params_eq:
  assumes "fields_ok s"
  shows "build_params s = map (field_pair s) (filter (field_differs s) (fields_map s))"
proof -
  have "distinct (map fst (fields_map s))"
    using assms by (simp add: fields_ok_def)
  then have "distinct (map (\<lambda>kf. queryParam (snd kf)) (fields_map s))"
    by (simp only: fields_ok_keys [OF assms])
  then show ?thesis
    using foldl_add_field [of "fields_map s" "[]" s] by (simp add: build_params_def)
qed

lemma has_build_params:
  assumes ok: "fields_ok s" and f: "map_of (fields_map s) k = Some f"
  shows "usp_has (build_params s) (queryParam f) \<longleftrightarrow> field_differs s (k, f)"
proof
  have mem: "(k, f) \<in> set (fields_map s)"
    using f by (rule map_of_SomeD)
  have qk: "queryParam f = k"
    using ok mem by (auto simp: fields_ok_def list_all_iff)
  {
    assume "usp_has (build_params s) (queryParam f)"
    then obtain kf where kf: "kf \<in> set (fields_map s)" "field_differs s kf"
        "queryParam (snd kf) = queryParam f"
      by (auto simp: usp_has_def build_params_eq [OF ok] field_pair_def)
    then have "fst kf = k"
      using ok qk by (auto simp: fields_ok_def list_all_iff)
    then have "kf = (k, f)"
      using ok kf(1) mem eq_key_imp_eq_value [of "fields_map s" k "snd kf" f]
      by (cases kf) (auto simp: fields_ok_def)
    then show "field_differs s (k, f)"
      using kf(2) by simp
  }
  {
    assume "field_differs s (k, f)"
    then have "field_pair s (k, f) \<in> set (build_params s)"
      using mem by (auto simp: build_params_eq [OF ok])
    then show "usp_has (build_params s) (queryParam f)"
      by (force simp: usp_has_def field_pair_def)
  }
qed

lemma pair_in_build_params:
  assumes ok: "fields_ok s" and f: "map_of (fields_map s) k = Some f"
  shows "field_pair s (k, f) \<in> set (build_params s) \<longleftrightarrow> field_differs s (k, f)"
proof
  assume "field_pair s (k, f) \<in> set (build_params s)"
  then have "usp_has (build_params s) (queryParam f)"
    by (force simp: usp_has_def field_pair_def)
  then show "field_differs s (k, f)"
    using has_build_params [OF ok f] by simp
next
  assume "field_differs s (k, f)"
  then show "field_pair s (k, f) \<in> set (build_params s)"
    using map_of_SomeD [OF f] by (auto simp: build_params_eq [OF ok])
qed

text \<open>
  C2. In a state whose field map has distinct keys, each entry filed under its own query
  parameter, the parameters \<open>buildQueryString\<close> collects hold the pair of a field's
  query parameter and its serialized value exactly when that value differs, as a string,
  from the serialized default; so does the name alone. After a flush on a browser location
  the URL carries no parameter of a field whose value serializes as its default.
\<close>

theorem default_elision:
  assumes "fields_ok s" and "map_of (fields_map s) k = Some f"
  shows "((queryParam f, serialize f (read_prop s (store f) (property f))) \<in> set (build_params s)
            \<longleftrightarrow> serialize f (read_prop s (store f) (property f)) \<noteq> serialize f (defaultValue f)) \<and>
         (usp_has (build_params s) (queryParam f)
            \<longleftrightarrow> serialize f (read_prop s (store f) (property f)) \<noteq> serialize f (defaultValue f)) \<and>
         (location_ok (location s) \<and>
          serialize f (read_prop s (store f) (property f)) = serialize f (defaultValue f) \<longrightarrow>
            \<not> usp_has (URLSearchParams (search (location (applyUrlUpdate s)))) (queryParam f))"
  using pair_in_build_params [OF assms] has_build_params [OF assms]
  by (simp add: field_pair_def field_differs_def flush_params)

theorem default_elision_witness:
  "fields_ok ex_reset \<and> location_ok (location ex_reset) \<and>
   usp_has (URLSearchParams (search (location ex_reset))) ''counter'' \<and>
   \<not> usp_has (build_params ex_reset) ''counter'' \<and>
   \<not> usp_has (URLSearchParams (search (location (applyUrlUpdate ex_reset)))) ''counter''"
proof -
  let ?f = "the (map_of (fields_map ex_reset) ''counter'')"
  have h1: "fields_ok ex_reset"
    by code_simp
  have "\<not> Option.is_none (map_of (fields_map ex_reset) ''counter'')"
    by code_simp
  then have h2: "map_of (fields_map ex_reset) ''counter'' = Some ?f"
    by (simp add: Option.is_none_def)
  have q: "queryParam ?f = ''counter''"
    by code_simp
  have e: "serialize ?f (read_prop ex_reset (store ?f) (property ?f)) = serialize ?f (defaultValue ?f)"
    by code_simp
  have l: "location_ok (location ex_reset)"
    by code_simp
  have u: "usp_has (URLSearchParams (search (location ex_reset))) ''counter''"
    by code_simp
  show ?thesis
    using default_elision [OF h1 h2] h1 q e l u by simp
qed

section \<open>Bursts of assignments\<close>

lemma set_property_in_window:
  assumes w: "in_window s0 s" and z: "lastUpdateTime s0 \<noteq> 0"
  shows "in_window s0 (set_property sid p v s)"
    and "updateTimer (set_property sid p v s) \<noteq> None \<longleftrightarrow>
           updateTimer s \<noteq> None \<or> signals sid p v s"
proof -
  let ?w = "(write_prop sid p v s)\<lparr>reactionValue := buildQueryString (write_prop sid p v s)\<rparr>"
  have ok: "timer_ok ?w"
    using w by (auto simp: in_window_def intro: timer_ok_frame)
  have late: "\<not> (lastUpdateTime ?w = 0 \<or> now ?w - lastUpdateTime ?w \<ge> debounceDelay ?w)"
    using w z by (simp add: in_window_def)
  have sch: "scheduleUrlUpdate ?w =
           ?w\<lparr>timers := [(nextTimer ?w, now ?w + (debounceDelay ?w - (now ?w - lastUpdateTime ?w)))],
             nextTimer := nextTimer ?w + 1, updateTimer := Some (nextTimer ?w)\<rparr>"
    by (rule scheduleUrlUpdate_later [OF ok late])
  have ok': "timer_ok (set_property sid p v s)"
    using w by (simp add: in_window_def timer_ok_set_property)
  show "in_window s0 (set_property sid p v s)"
    using w ok'
    by (simp add: in_window_def set_property_def reaction_def Let_def sch)
  show "updateTimer (set_property sid p v s) \<noteq> None \<longleftrightarrow>
           updateTimer s \<noteq> None \<or> signals sid p v s"
    by (simp add: set_property_def reaction_def Let_def sch signals_def)
qed

lemma elapse_in_window:
  assumes w: "in_window s0 s" and t: "t < lastUpdateTime s0 + debounceDelay s0"
  shows "elapse t s = s\<lparr>now := max (now s) t\<rparr>" and "in_window s0 (elapse t s)"
proof -
  show e: "elapse t s = s\<lparr>now := max (now s) t\<rparr>"
    using w t by (intro elapse_early) (simp_all add: in_window_def)
  show "in_window s0 (elapse t s)"
    using w t unfolding e by (auto simp: in_window_def intro: timer_ok_frame)
qed

lemma apply_mutation_in_window:
  assumes w: "in_window s0 s" and z: "lastUpdateTime s0 \<noteq> 0"
      and t: "at_time m < lastUpdateTime s0 + debounceDelay s0"
  shows "in_window s0 (apply_mutation s m)"
    and "updateTimer (apply_mutation s m) \<noteq> None \<longleftrightarrow> updateTimer s \<noteq> None \<or> dirty [m] s"
proof -
  have e: "in_window s0 (elapse (at_time m) s)"
    by (rule elapse_in_window(2) [OF w t])
  have u: "updateTimer (elapse (at_time m) s) = updateTimer s"
    by (simp add: elapse_in_window(1) [OF w t])
  show "in_window s0 (apply_mutation s m)"
    unfolding apply_mutation_def by (rule set_property_in_window(1) [OF e z])
  show "updateTimer (apply_mutation s m) \<noteq> None \<longleftrightarrow> updateTimer s \<noteq> None \<or> dirty [m] s"
    unfolding apply_mutation_def using set_property_in_window(2) [OF e z] u by simp
qed

lemma run_burst_in_window:
  assumes z: "lastUpdateTime s0 \<noteq> 0"
  shows "in_window s0 s \<Longrightarrow>
         list_all (\<lambda>m. at_time m < lastUpdateTime s0 + debounceDelay s0) ms \<Longrightarrow>
         in_window s0 (run_burst ms s) \<and>
         (updateTimer (run_burst ms s) \<noteq> None \<longleftrightarrow> updateTimer s \<noteq> None \<or> dirty ms s)"
proof (induction ms arbitrary: s)
  case Nil
  then show ?case by (simp add: run_burst_def)
next
  case (Cons m ms)
  have t: "at_time m < lastUpdateTime s0 + debounceDelay s0"
    using Cons.prems(2) by simp
  have w: "in_window s0 (apply_mutation s m)"
    by (rule apply_mutation_in_window(1) [OF Cons.prems(1) z t])
  have u: "updateTimer (apply_mutation s m) \<noteq> None \<longleftrightarrow> updateTimer s \<noteq> None \<or> dirty [m] s"
    by (rule apply_mutation_in_window(2) [OF Cons.prems(1) z t])
  have r: "run_burst (m # ms) s = run_burst ms (apply_mutation s m)"
    by (simp add: run_burst_def)
  show ?case
    using Cons.IH [OF w] Cons.prems(2) u unfolding r by auto
qed


lemma desired_url_cong:
  "fields_map s' = fields_map s \<Longrightarrow> stores s' = stores s \<Longrightarrow> location s' = location s \<Longrightarrow>
   desired_url s' = desired_url s"
  by (simp add: desired_url_def buildQueryString_cong [of s' s])

lemma flush_one_of:
  "replaced (applyUrlUpdate s) = replaced s \<or>
   replaced (applyUrlUpdate s) = replaced s @ [desired_url s]"
proof -
  have "buildQueryString (s\<lparr>lastUpdateTime := now s\<rparr>) = buildQueryString s"
    by (rule buildQueryString_cong) simp_all
  then show ?thesis
    by (simp add: applyUrlUpdate_def Let_def replaceState_def desired_url_def)
qed

lemma elapse_after_window:
  assumes ok: "timer_ok s" and T: "lastUpdateTime s + debounceDelay s \<le> T"
  shows "replaced (elapse T s) = replaced s \<or> replaced (elapse T s) = replaced s @ [desired_url s]"
proof (cases "updateTimer s")
  case None
  then show ?thesis using ok by (simp add: elapse_idle)
next
  case (Some h)
  let ?x = "s\<lparr>timers := [], now := max (now s) (lastUpdateTime s + debounceDelay s)\<rparr>"
  have d: "desired_url ?x = desired_url s"
    by (rule desired_url_cong) simp_all
  show ?thesis
    using flush_one_of [of ?x] d by (simp add: elapse_due [OF ok Some T])
qed

lemma elapse_after_window_pending:
  assumes ok: "timer_ok s" and T: "lastUpdateTime s + debounceDelay s \<le> T"
      and p: "updateTimer s \<noteq> None" and l: "location_ok (location s)"
  shows "replaced (elapse T s) = replaced s @ [desired_url s]"
proof -
  let ?x = "s\<lparr>timers := [], now := max (now s) (lastUpdateTime s + debounceDelay s)\<rparr>"
  obtain h where h: "updateTimer s = Some h"
    using p by auto
  have d: "desired_url ?x = desired_url s"
    by (rule desired_url_cong) simp_all
  have "location_ok (location ?x)"
    using l by simp
  then have "replaced (applyUrlUpdate ?x) = replaced ?x @ [desired_url ?x]"
    by (rule flush_always_writes)
  then show ?thesis
    using d by (simp add: elapse_due [OF ok h T])
qed

text \<open>
  C8, as amended. A burst of assignments all arriving inside the delay window that follows
  a flush causes no URL write while it lasts. Once the window has passed, at most one write
  has been made, and it is the URL built from the final state of all fields; on a browser
  location it is made when some assignment of the burst changed the query string and that
  URL is not the one shown.
\<close>

theorem burst_coalesced:
  assumes "timer_ok s" and "lastUpdateTime s \<noteq> 0"
      and "now s < lastUpdateTime s + debounceDelay s"
      and "list_all (\<lambda>m. at_time m < lastUpdateTime s + debounceDelay s) ms"
      and "lastUpdateTime s + debounceDelay s \<le> T"
  shows "replaced (run_burst ms s) = replaced s \<and>
         (replaced (elapse T (run_burst ms s)) = replaced s \<or>
          replaced (elapse T (run_burst ms s)) = replaced s @ [desired_url (run_burst ms s)]) \<and>
         (dirty ms s \<and> location_ok (location s) \<and>
          desired_url (run_burst ms s) \<noteq> current_url (run_burst ms s) \<longrightarrow>
            replaced (elapse T (run_burst ms s)) = replaced s @ [desired_url (run_burst ms s)])"
proof -
  let ?s' = "run_burst ms s"
  have w0: "in_window s s"
    using assms(1,3) by (simp add: in_window_def)
  have w: "in_window s ?s'" and u: "updateTimer ?s' \<noteq> None \<longleftrightarrow> updateTimer s \<noteq> None \<or> dirty ms s"
    using run_burst_in_window [OF assms(2) w0 assms(4)] by simp_all
  have ok: "timer_ok ?s'" and r: "replaced ?s' = replaced s" and l: "location ?s' = location s"
    and T: "lastUpdateTime ?s' + debounceDelay ?s' \<le> T"
    using w assms(5) by (simp_all add: in_window_def)
  show ?thesis
    using elapse_after_window [OF ok T] elapse_after_window_pending [OF ok T] r l u
    by auto
qed

theorem burst_coalesced_witness:
  "timer_ok ex_later \<and> lastUpdateTime ex_later = 1000 \<and> now ex_later = 1200 \<and>
   debounceDelay ex_later = 500 \<and> dirty (ex_burst 1200) ex_later \<and>
   replaced ex_later = [''/app?counter=7''] \<and>
   replaced (run_burst (ex_burst 1200) ex_later) = [''/app?counter=7''] \<and>
   replaced (elapse 2000 (run_burst (ex_burst 1200) ex_later)) = [''/app?counter=7'', ''/app?counter=3'']"
proof -
  have h1: "timer_ok ex_later"
    by code_simp
  have v: "lastUpdateTime ex_later = 1000" "now ex_later = 1200" "debounceDelay ex_later = 500"
    by code_simp+
  have h2: "lastUpdateTime ex_later \<noteq> 0"
    using v by simp
  have h3: "now ex_later < lastUpdateTime ex_later + debounceDelay ex_later"
    using v by simp
  have h4: "list_all (\<lambda>m. at_time m < lastUpdateTime ex_later + debounceDelay ex_later) (ex_burst 1200)"
    by code_simp
  have h5: "lastUpdateTime ex_later + debounceDelay ex_later \<le> 2000"
    using v by simp
  have d: "dirty (ex_burst 1200) ex_later"
    by code_simp
  have l: "location_ok (location ex_later)"
    by code_simp
  have n: "desired_url (run_burst (ex_burst 1200) ex_later) \<noteq> current_url (run_burst (ex_burst 1200) ex_later)"
    by code_simp
  have u: "desired_url (run_burst (ex_burst 1200) ex_later) = ''/app?counter=3''"
    by code_simp
  have r: "replaced ex_later = [''/app?counter=7'']"
    by code_simp
  show ?thesis
    using burst_coalesced [OF h1 h2 h3 h4 h5] h1 v d l n u r by simp
qed

text \<open>
  On a fresh engine (no flush yet) with delay 500, the counter is set to 1, 2 and 3 within
  ten time units: the first assignment is flushed at once, the others are coalesced, and two
  URLs are written, the first of an intermediate state.
\<close>

theorem burst_leading_write_counterexample:
  "lastUpdateTime ex_fresh = 0 \<and> replaced ex_fresh = [] \<and>
   replaced (elapse 2000 (run_burst (ex_burst 1000) ex_fresh)) = [''/app?counter=1'', ''/app?counter=3''] \<and>
   length (replaced (elapse 2000 (run_burst (ex_burst 1000) ex_fresh))) \<noteq> 1"
  by code_simp

section \<open>The variant with one throttle per field, compared\<close>

text \<open>
  \<open>registerField\<close> rejects a bound query parameter as \<open>register\<close> does. It files the
  entry before it hydrates and does not catch what \<open>deserialize\<close> throws, so that the
  error reaches the caller with the entry in the map. Its interceptor returns before any
  bookkeeping when the parameters would not change, and it resolves the serializer for the
  value of the store property, not for the default value. On a store property that is not
  observable it throws, as \<open>register\<close> does, with the entry filed.
\<close>

lemma registerField_duplicate:
  "map_has (v_fields s) qp \<Longrightarrow>
     registerField sid prop qp cfg s = (Inl (variant_duplicate_error qp), s)"
  by (simp add: registerField_def)

lemma map_has_map_set: "map_has (map_set m k v) k"
  by (induction m) (auto simp: map_has_def)

lemma registerField_deserialize_throws:
  assumes "\<not> map_has (v_fields s) qp"
      and "config_serialize cfg = Some f" and "config_deserialize cfg = Some g"
      and "usp_get (URLSearchParams (search (v_location s))) qp = Some raw"
      and "g raw = Inl e"
    shows "fst (registerField sid prop qp cfg s) = Inl e \<and>
           map_has (v_fields (snd (registerField sid prop qp cfg s))) qp"
proof -
  have "usp_has (URLSearchParams (search (v_location s))) qp"
    using assms(4) by (auto simp: usp_has_def usp_get_def dest: map_of_SomeD intro: rev_image_eqI)
  then show ?thesis
    using assms
    by (simp add: registerField_def loadFromURLForField_def Let_def Option.is_none_def map_has_map_set)
qed

lemma interceptor_unchanged_params:
  assumes "map_of (v_fields s) k = Some field"
      and "usp_toString
             (if serialize field v = serialize field (defaultValue field)
              then usp_delete (URLSearchParams (search (v_location s))) (queryParam field)
              else usp_set (URLSearchParams (search (v_location s))) (queryParam field) (serialize field v)) =
           usp_toString (URLSearchParams (search (v_location s)))"
    shows "interceptor k v s = s"
  using assms by (simp add: interceptor_def Let_def)


lemma variant_hydration_error_propagates:
  "fst (registerField 0 ''counter'' ''counter'' ex_config_throwing ex_variant) =
     Inl (Error ''not a number'') \<and>
   map_has (v_fields (snd (registerField 0 ''counter'' ''counter'' ex_config_throwing ex_variant)))
     ''counter''"
  by code_simp

lemma variant_unchanged_params_no_bookkeeping:
  "v_replaced (v_assign 0 ''counter'' (Num 7) ex_variant_registered) = [] \<and>
   map (\<lambda>kf. fe_lastUpdateTime (snd kf)) (v_fields (v_assign 0 ''counter'' (Num 7) ex_variant_registered)) =
     [None]"
  by code_simp

lemma variant_resolves_for_store_value:
  "fst (registerField 0 ''missing'' ''m'' ex_config_default0 ex_variant) =
     Inl (variant_missing_error ''missing'') \<and>
   fst (register 0 ''missing'' ''m'' ex_config_default0 ex_engine) = Inr ()"
  by code_simp

lemma variant_intercept_throws:
  "fst (registerField 0 ''counter'' ''counter'' ex_config ex_variant_plain) =
     Inl (mobx_error ''counter'') \<and>
   map_has (v_fields (snd (registerField 0 ''counter'' ''counter'' ex_config ex_variant_plain)))
     ''counter''"
  by code_simp

section \<open>Reachable states\<close>

text \<open>Every state the engine reaches from its constructor on a browser location
  satisfies the three invariants.\<close>

lemma map_set_fresh: "\<not> map_has m k \<Longrightarrow> map_set m k v = m @ [(k, v)]"
  by (induction m) (auto simp: map_has_def)

lemma fields_ok_init: "fields_ok (MobXURLSync sers opt sts obs loc t)"
  by (simp add: fields_ok_def MobXURLSync_def)

lemma fields_ok_frame: "fields_ok s \<Longrightarrow> fields_map s' = fields_map s \<Longrightarrow> fields_ok s'"
  by (simp add: fields_ok_def)

lemma fields_ok_register:
  assumes "fields_ok s"
  shows "fields_ok (snd (register sid prop qp cfg s))"
proof (cases rule: register_state_cases [of sid "prop" qp cfg s])
  case unchanged
  then show ?thesis using assms by simp
next
  case (filed ser deser)
  then show ?thesis
    using assms by (auto simp: fields_ok_def map_set_fresh map_has_def)
qed

lemma fields_map_elapse: "fields_map (elapse t s) = fields_map s"
proof -
  have "fields_map (foldl (\<lambda>s tm. fire_timer tm s) s tms) = fields_map s" for tms
    by (induction tms arbitrary: s)
       (simp_all add: fire_timer_def timer_callback_def clearTimeout_def)
  then show ?thesis
    by (simp add: elapse_def Let_def)
qed

lemma fields_ok_step: "fields_ok s \<Longrightarrow> fields_ok (step s e)"
proof (cases e)
  case (Register sid pname qp cfg)
  assume "fields_ok s"
  then show ?thesis using Register by (simp add: fields_ok_register)
next
  case (Assign sid p v)
  assume "fields_ok s"
  then show ?thesis using Assign by (auto intro: fields_ok_frame simp: set_property_def)
next
  case (Elapse t)
  assume "fields_ok s"
  then show ?thesis using Elapse by (auto intro: fields_ok_frame simp: fields_map_elapse)
qed

lemma fields_ok_run: "fields_ok s \<Longrightarrow> fields_ok (run evs s)"
  unfolding run_def by (induction evs arbitrary: s) (simp_all add: fields_ok_step)

lemma location_ok_applyUrlUpdate:
  "location_ok (location s) \<Longrightarrow> location_ok (location (applyUrlUpdate s))"
  by (simp add: flush_location) (simp add: location_ok_def)

lemma location_ok_scheduleUrlUpdate:
  assumes "location_ok (location s)"
  shows "location_ok (location (scheduleUrlUpdate s))"
proof -
  let ?s1 = "case updateTimer s of Some h \<Rightarrow> (clearTimeout h s)\<lparr>updateTimer := None\<rparr> | None \<Rightarrow> s"
  have l: "location ?s1 = location s"
    by (simp add: clearTimeout_def split: option.splits)
  show ?thesis
  proof (cases "lastUpdateTime ?s1 = 0 \<or> now s - lastUpdateTime s \<ge> debounceDelay ?s1")
    case True
    then have "scheduleUrlUpdate s = applyUrlUpdate ?s1"
      by (simp add: scheduleUrlUpdate_def Let_def)
    then show ?thesis
      using assms l location_ok_applyUrlUpdate [of ?s1] by simp
  next
    case False
    then have "location (scheduleUrlUpdate s) = location ?s1"
      by (simp add: scheduleUrlUpdate_def Let_def setTimeout_def)
    then show ?thesis
      using assms l by simp
  qed
qed

lemma location_ok_reaction:
  "location_ok (location s) \<Longrightarrow> location_ok (location (reaction s))"
  using location_ok_scheduleUrlUpdate [of "s\<lparr>reactionValue := buildQueryString s\<rparr>"]
  by (simp add: reaction_def Let_def)

lemma location_ok_register:
  assumes "location_ok (location s)"
  shows "location_ok (location (snd (register sid prop qp cfg s)))"
proof (cases rule: register_state_cases [of sid "prop" qp cfg s])
  case unchanged
  then show ?thesis using assms by simp
next
  case (filed ser deser)
  then show ?thesis
    using assms by (simp add: location_ok_reaction)
qed

lemma location_ok_fire_timer:
  "location_ok (location s) \<Longrightarrow> location_ok (location (fire_timer tm s))"
  using location_ok_applyUrlUpdate [of "(clearTimeout (fst tm) s)\<lparr>now := max (now s) (snd tm)\<rparr>"]
  by (simp add: fire_timer_def timer_callback_def clearTimeout_def)

lemma location_ok_elapse:
  assumes "location_ok (location s)"
  shows "location_ok (location (elapse t s))"
proof -
  have "location_ok (location s) \<Longrightarrow> location_ok (location (foldl (\<lambda>s tm. fire_timer tm s) s tms))"
    for tms s
    by (induction tms arbitrary: s) (simp_all add: location_ok_fire_timer)
  then show ?thesis
    using assms by (simp add: elapse_def Let_def)
qed

lemma location_ok_step: "location_ok (location s) \<Longrightarrow> location_ok (location (step s e))"
  using location_ok_reaction [of "write_prop sid p v s" for sid p v]
  by (cases e) (simp_all add: location_ok_register location_ok_elapse set_property_def)

lemma location_ok_run: "location_ok (location s) \<Longrightarrow> location_ok (location (run evs s))"
  unfolding run_def by (induction evs arbitrary: s) (simp_all add: location_ok_step)

lemma reachable_invariants:
  assumes "location_ok loc"
  shows "timer_ok (run evs (MobXURLSync sers opt sts obs loc t)) \<and>
         fields_ok (run evs (MobXURLSync sers opt sts obs loc t)) \<and>
         location_ok (location (run evs (MobXURLSync sers opt sts obs loc t)))"
proof -
  have "location_ok (location (MobXURLSync sers opt sts obs loc t))"
    using assms by (simp add: MobXURLSync_def)
  then show ?thesis
    by (simp add: timer_ok_run timer_ok_init fields_ok_run fields_ok_init location_ok_run)
qed

section \<open>The reaction on observable stores\<close>

text \<open>
  While every store property is observable, the reaction holds the current query string
  in every reachable state, and an assignment makes it signal exactly when the assignment
  changes the query string.
\<close>

lemma in_sync_init: "in_sync (MobXURLSync sers opt sts obs loc t)"
  by (simp add: in_sync_def MobXURLSync_def buildQueryString_def build_params_def usp_toString_def)

lemma in_sync_frame:
  "in_sync s \<Longrightarrow> reactionValue s' = reactionValue s \<Longrightarrow> fields_map s' = fields_map s \<Longrightarrow>
   stores s' = stores s \<Longrightarrow> in_sync s'"
  by (simp add: in_sync_def buildQueryString_cong [of s' s])

lemma in_sync_reaction: "in_sync (reaction s)"
proof -
  let ?u = "s\<lparr>reactionValue := buildQueryString s\<rparr>"
  have b: "buildQueryString ?u = buildQueryString s"
    by (rule buildQueryString_cong) simp_all
  have "buildQueryString (scheduleUrlUpdate ?u) = buildQueryString ?u"
    by (rule buildQueryString_cong) simp_all
  then show ?thesis
    using b by (auto simp: in_sync_def reaction_def Let_def)
qed

lemma in_sync_register: "in_sync s \<Longrightarrow> in_sync (snd (register sid prop qp cfg s))"
proof (cases rule: register_state_cases [of sid "prop" qp cfg s])
  case unchanged
  assume "in_sync s"
  then show ?thesis using unchanged by simp
next
  case (filed ser deser)
  then show ?thesis by (simp add: in_sync_reaction)
qed

lemma add_field_untracked:
  assumes "(store (snd kf), property (snd kf)) \<noteq> (sid, p)"
  shows "add_field (write_prop sid p v s) acc kf = add_field s acc kf"
  using assms by (auto simp: add_field_def write_prop_def read_prop_def Let_def)

lemma build_params_untracked:
  assumes "\<not> tracked s sid p"
  shows "build_params (write_prop sid p v s) = build_params s"
proof -
  have "\<forall>kf\<in>set fs. (store (snd kf), property (snd kf)) \<noteq> (sid, p) \<Longrightarrow>
        foldl (add_field (write_prop sid p v s)) acc fs = foldl (add_field s) acc fs" for fs acc
    by (induction fs arbitrary: acc) (simp_all add: add_field_untracked)
  then show ?thesis
    using assms by (force simp: build_params_def tracked_def)
qed

lemma write_prop_same: "read_prop s sid p = v \<Longrightarrow> write_prop sid p v s = s"
  by (cases s) (auto simp: write_prop_def read_prop_def)

lemma in_sync_set_property:
  assumes "in_sync s" and "observable s sid p"
  shows "in_sync (set_property sid p v s)"
proof (cases "notifies sid p v s")
  case True
  then show ?thesis by (simp add: set_property_def in_sync_reaction)
next
  case False
  then have "\<not> tracked s sid p \<or> read_prop s sid p = v"
    using assms(2) by (simp add: notifies_def)
  then have "buildQueryString (write_prop sid p v s) = buildQueryString s"
    by (auto simp: buildQueryString_def build_params_untracked write_prop_same)
  then show ?thesis
    using False assms(1) by (simp add: set_property_def in_sync_def)
qed

lemma signals_iff_changed:
  assumes "in_sync s" and "observable s sid p"
  shows "signals sid p v s \<longleftrightarrow> buildQueryString (write_prop sid p v s) \<noteq> buildQueryString s"
proof
  assume "signals sid p v s"
  then show "buildQueryString (write_prop sid p v s) \<noteq> buildQueryString s"
    using assms(1) by (simp add: signals_def in_sync_def)
next
  assume c: "buildQueryString (write_prop sid p v s) \<noteq> buildQueryString s"
  have "tracked s sid p"
  proof (rule ccontr)
    assume "\<not> tracked s sid p"
    then have "build_params (write_prop sid p v s) = build_params s"
      by (rule build_params_untracked)
    then show False
      using c by (simp add: buildQueryString_def)
  qed
  moreover have "read_prop s sid p \<noteq> v"
  proof
    assume "read_prop s sid p = v"
    then have "write_prop sid p v s = s"
      by (rule write_prop_same)
    then show False
      using c by simp
  qed
  ultimately show "signals sid p v s"
    using c assms by (simp add: signals_def notifies_def in_sync_def)
qed

lemma in_sync_elapse: "in_sync s \<Longrightarrow> in_sync (elapse t s)"
proof -
  have f: "in_sync s \<Longrightarrow> in_sync (foldl (\<lambda>s tm. fire_timer tm s) s tms)" for tms s
  proof (induction tms arbitrary: s)
    case Nil
    then show ?case by simp
  next
    case (Cons tm tms)
    have "in_sync (fire_timer tm s)"
      by (rule in_sync_frame [OF Cons.prems])
         (simp_all add: fire_timer_def timer_callback_def clearTimeout_def)
    then show ?case using Cons.IH by simp
  qed
  assume "in_sync s"
  then have "in_sync (foldl (\<lambda>s tm. fire_timer tm s) s
                 (sort_key snd (filter (\<lambda>tm. snd tm \<le> t) (timers s))))"
    by (rule f)
  then show ?thesis
    by (auto simp: elapse_def Let_def intro: in_sync_frame)
qed


lemma observable_elapse: "observable (elapse t s) = observable s"
proof -
  have "observable (foldl (\<lambda>s tm. fire_timer tm s) s tms) = observable s" for tms
    by (induction tms arbitrary: s)
       (simp_all add: fire_timer_def timer_callback_def clearTimeout_def)
  then show ?thesis
    by (simp add: elapse_def Let_def)
qed

lemma observable_register: "observable (snd (register sid prop qp cfg s)) = observable s"
  by (cases rule: register_state_cases [of sid "prop" qp cfg s]) simp_all

lemma observable_step: "observable (step s e) = observable s"
  by (cases e) (simp_all add: observable_register observable_elapse set_property_def)

lemma in_sync_step:
  "in_sync s \<Longrightarrow> \<forall>sid p. observable s sid p \<Longrightarrow> in_sync (step s e)"
  by (cases e) (simp_all add: in_sync_register in_sync_set_property in_sync_elapse)

lemma in_sync_run:
  "in_sync s \<Longrightarrow> \<forall>sid p. observable s sid p \<Longrightarrow> in_sync (run evs s)"
  unfolding run_def
  by (induction evs arbitrary: s) (simp_all add: in_sync_step observable_step)

end
